theory Spec2Isabelle
  imports Main "HOL-Library.AList"
begin

section \<open>JavaScript values carried by socket messages\<close>

text \<open>
  Socket.IO hands every handler the decoded JSON payload the client sent. The handlers
  test these payloads with JavaScript truthiness, \<^verbatim>\<open>typeof\<close>, property access and
  strict equality, so payloads are modelled as a datatype of JavaScript values. The
  handlers do nothing with a number but test its truthiness and print it, so a number
  other than NaN is given by the text that \<^verbatim>\<open>String\<close> prints for it: \<^verbatim>\<open>0\<close> for zero of
  either sign, and for instance \<^verbatim>\<open>446\<close>, \<^verbatim>\<open>-3\<close>, \<^verbatim>\<open>0.5\<close>, \<^verbatim>\<open>1e+21\<close> or \<^verbatim>\<open>Infinity\<close>. Arrays
  do not occur in any payload the handlers inspect and are not represented.
\<close>

datatype jsval =
    JUndefined
  | JNull
  | JNaN
  | JBool bool
  | JNum string
  | JStr string
  | JObj "(string \<times> jsval) list"

fun truthy :: "jsval \<Rightarrow> bool" where
  "truthy JUndefined = False"
| "truthy JNull = False"
| "truthy JNaN = False"
| "truthy (JBool b) = b"
| "truthy (JNum r) = (r \<noteq> ''0'')"
| "truthy (JStr s) = (s \<noteq> [])"
| "truthy (JObj fs) = True"

fun is_string :: "jsval \<Rightarrow> bool" where
  "is_string (JStr s) = True"
| "is_string v = False"

fun nullish :: "jsval \<Rightarrow> bool" where
  "nullish JUndefined = True"
| "nullish JNull = True"
| "nullish v = False"

text \<open>Property read \<^verbatim>\<open>v.k\<close> on a value that is neither null nor undefined.\<close>

fun get_prop :: "jsval \<Rightarrow> string \<Rightarrow> jsval" where
  "get_prop (JObj fs) k = (case map_of fs k of Some x \<Rightarrow> x | None \<Rightarrow> JUndefined)"
| "get_prop v k = JUndefined"

text \<open>Property write \<^verbatim>\<open>v.k = x\<close>; on a primitive the assignment has no effect.\<close>

fun set_prop :: "jsval \<Rightarrow> string \<Rightarrow> jsval \<Rightarrow> jsval" where
  "set_prop (JObj fs) k x = JObj (AList.update k x fs)"
| "set_prop v k x = v"

text \<open>The conversion \<^verbatim>\<open>String(v)\<close>.\<close>

fun js_String :: "jsval \<Rightarrow> string" where
  "js_String JUndefined = ''undefined''"
| "js_String JNull = ''null''"
| "js_String JNaN = ''NaN''"
| "js_String (JBool b) = (if b then ''true'' else ''false'')"
| "js_String (JNum r) = r"
| "js_String (JStr s) = s"
| "js_String (JObj fs) = ''[object Object]''"

section \<open>Server state\<close>

type_synonym sid = string
type_synonym chan = string
type_synonym fname = string

text \<open>
  \<^item> \<open>sockets\<close> is Socket.IO's \<^verbatim>\<open>io.sockets.sockets\<close>, the ids of the sockets that are
    connected.
  \<^item> \<open>rooms\<close> is Socket.IO's \<^verbatim>\<open>io.sockets.adapter.rooms\<close>, a Map from room name to the
    Set of socket ids in it (both in insertion order).
  \<^item> \<open>userChannels\<close> holds, per connected socket, the Set \<^verbatim>\<open>userChannels\<close> that the
    connection handler of the multi-channel backend creates.
  \<^item> \<open>lastActivity\<close> holds, per connected socket, the variable \<^verbatim>\<open>lastActivity\<close> of the
    single-channel backend.
  \<^item> \<open>uploadedFiles\<close> is the Map \<^verbatim>\<open>uploadedFiles\<close> from file name to tracking timestamp.
  \<^item> \<open>disk\<close> is the uploads directory: file name and modification time in milliseconds.
\<close>

record server =
  sockets :: "sid list"
  rooms :: "(chan \<times> sid list) list"
  userChannels :: "(sid \<times> chan list) list"
  lastActivity :: "(sid \<times> int) list"
  uploadedFiles :: "(fname \<times> int) list"
  disk :: "(fname \<times> int) list"

definition init :: server where
  "init = \<lparr>sockets = [], rooms = [], userChannels = [], lastActivity = [],
            uploadedFiles = [], disk = []\<rparr>"

subsection \<open>Sets in insertion order\<close>

definition set_add :: "'a \<Rightarrow> 'a list \<Rightarrow> 'a list" where
  "set_add x xs = (if x \<in> set xs then xs else xs @ [x])"

fun set_has :: "string list \<Rightarrow> jsval \<Rightarrow> bool" where
  "set_has xs (JStr c) = (c \<in> set xs)"
| "set_has xs v = False"

fun set_delete :: "jsval \<Rightarrow> string list \<Rightarrow> string list" where
  "set_delete (JStr c) xs = removeAll c xs"
| "set_delete v xs = xs"

subsection \<open>The Socket.IO in-memory adapter\<close>

text \<open>
  Socket.IO is a library the backend calls; its room bookkeeping is modelled after its
  documented behaviour: a room is a Set of socket ids, created on first join and removed
  as soon as it is empty; on disconnect a socket leaves every room before its
  \<^verbatim>\<open>disconnect\<close> handlers run; every socket joins the room named by its own id when it
  connects. \<open>adapter_add\<close> and \<open>adapter_del\<close> are the adapter's \<^verbatim>\<open>addAll\<close> and \<^verbatim>\<open>del\<close> for
  one room; \<open>adapter_delAll\<close> takes the socket out of every room there is, which for
  rooms it is not in changes nothing.
\<close>

definition room_members :: "(chan \<times> sid list) list \<Rightarrow> chan \<Rightarrow> sid list" where
  "room_members rs c = (case map_of rs c of Some ms \<Rightarrow> ms | None \<Rightarrow> [])"

definition adapter_add :: "sid \<Rightarrow> chan \<Rightarrow> (chan \<times> sid list) list \<Rightarrow> (chan \<times> sid list) list" where
  "adapter_add s c rs = AList.update c (set_add s (room_members rs c)) rs"

definition adapter_del :: "sid \<Rightarrow> chan \<Rightarrow> (chan \<times> sid list) list \<Rightarrow> (chan \<times> sid list) list" where
  "adapter_del s c rs =
     (case map_of rs c of
        None \<Rightarrow> rs
      | Some ms \<Rightarrow>
          if removeAll s ms = [] then AList.delete c rs
          else AList.update c (removeAll s ms) rs)"

definition adapter_delAll :: "sid \<Rightarrow> (chan \<times> sid list) list \<Rightarrow> (chan \<times> sid list) list" where
  "adapter_delAll s rs = fold (adapter_del s) (map fst rs) rs"

text \<open>\<^verbatim>\<open>socket.join(room)\<close> and \<^verbatim>\<open>socket.leave(room)\<close>; no room is named by a non-string.\<close>

definition socket_join :: "server \<Rightarrow> sid \<Rightarrow> chan \<Rightarrow> server" where
  "socket_join st s c = st\<lparr>rooms := adapter_add s c (rooms st)\<rparr>"

fun socket_leave :: "server \<Rightarrow> sid \<Rightarrow> jsval \<Rightarrow> server" where
  "socket_leave st s (JStr c) = st\<lparr>rooms := adapter_del s c (rooms st)\<rparr>"
| "socket_leave st s v = st"

text \<open>The members a broadcast to room \<open>v\<close> reaches.\<close>

fun members :: "server \<Rightarrow> jsval \<Rightarrow> sid list" where
  "members st (JStr c) = room_members (rooms st) c"
| "members st v = []"

subsection \<open>Outbound events\<close>

text \<open>
  The events the handlers emit, with their payload fields in order:
  \<^verbatim>\<open>joinConfirmation {channelId, success, error}\<close>, \<^verbatim>\<open>activeUsers\<close> (the roster),
  \<^verbatim>\<open>userJoined\<close> and \<^verbatim>\<open>userLeft\<close> (a socket id), \<^verbatim>\<open>pttStatus {userId, status}\<close>, the
  single-channel backend's \<^verbatim>\<open>pttStatus {userId, status, message, timestamp}\<close> and
  \<^verbatim>\<open>pttAck {channelId, status, received, timestamp, error}\<close>, \<^verbatim>\<open>audioData {userId, data}\<close>,
  the single-channel backend's \<^verbatim>\<open>audioData {userId, data, timestamp}\<close> and
  \<^verbatim>\<open>audioAck {success, channelId, timestamp, error}\<close>. A field the code leaves out is
  \<open>None\<close> or \<open>JUndefined\<close>.
\<close>

datatype event =
    JoinConfirmation string bool "string option"
  | ActiveUsers "sid list"
  | UserJoined sid
  | UserLeft sid
  | PttStatus sid jsval
  | PttStatusMsg sid jsval jsval "int option"
  | PttAck jsval jsval bool "int option" "string option"
  | AudioData sid jsval
  | AudioDataAt sid jsval int
  | AudioAck bool jsval "int option" "string option"

datatype target = ToSocket sid | ToRoom jsval | ToRoomExcept jsval sid

text \<open>An emit call: whom it addresses, the event, and the sockets it reaches.\<close>

datatype emission = Emit target event "sid list"

definition connected :: "server \<Rightarrow> sid \<Rightarrow> bool" where
  "connected st s = (s \<in> set (sockets st))"

text \<open>
  \<^verbatim>\<open>socket.emit(ev)\<close> called in a handler of socket \<open>s\<close>: Socket.IO runs a socket's handlers
  while the socket is connected, so the event reaches it.
\<close>

definition socket_emit :: "sid \<Rightarrow> event \<Rightarrow> emission" where
  "socket_emit s ev = Emit (ToSocket s) ev [s]"

text \<open>
  \<^verbatim>\<open>socket.emit(ev)\<close> called from a timer callback: the socket may have disconnected since
  the callback was registered, and a packet for a closed connection is dropped.
\<close>

definition socket_emit_later :: "server \<Rightarrow> sid \<Rightarrow> event \<Rightarrow> emission" where
  "socket_emit_later st s ev = Emit (ToSocket s) ev (if connected st s then [s] else [])"

text \<open>
  \<^verbatim>\<open>io.to(room).emit(ev)\<close>: every socket in the room. (On disconnect a socket leaves its
  rooms, so the members of a room are connected sockets.)
\<close>

definition io_to_emit :: "server \<Rightarrow> jsval \<Rightarrow> event \<Rightarrow> emission" where
  "io_to_emit st room ev = Emit (ToRoom room) ev (members st room)"

text \<open>
  \<^verbatim>\<open>socket.to(room).emit(ev)\<close>: Socket.IO broadcasts to the room with the room named by
  the socket's own id as the exception, so it leaves out every socket that is in that
  room at the time. Normally that is the sender alone; it is nobody once the sender has
  left the room named by its id, and it includes any other socket that has joined that
  room.
\<close>

definition socket_to_emit :: "server \<Rightarrow> sid \<Rightarrow> jsval \<Rightarrow> event \<Rightarrow> emission" where
  "socket_to_emit st s room ev =
     Emit (ToRoomExcept room s) ev
       (filter (\<lambda>r. r \<notin> set (room_members (rooms st) s)) (members st room))"


section \<open>Handler results and deferred work\<close>

text \<open>
  A handler returns the new state, the events it emits before it returns, and the
  callbacks it registers with \<^verbatim>\<open>setTimeout\<close>, each with its delay in milliseconds.
  A registered callback runs once, after the handler has returned and not before its
  delay has elapsed; \<open>fire\<close> gives what it emits in the state and at the time it runs.
\<close>

datatype error = TypeError

datatype task =
    JoinNotify sid chan "sid list"
  | PttResend sid jsval jsval jsval
  | AudioRelay sid jsval jsval

type_synonym result = "server \<times> emission list \<times> (nat \<times> task) list"

fun fire :: "server \<Rightarrow> int \<Rightarrow> task \<Rightarrow> emission list" where
  "fire st now (JoinNotify s c users) =
     [socket_emit_later st s (ActiveUsers users),
      socket_to_emit st s (JStr c) (UserJoined s)]"
| "fire st now (PttResend s channelId status message) =
     [io_to_emit st channelId (PttStatusMsg s status message (Some now))]"
| "fire st now (AudioRelay s channelId data) =
     [io_to_emit st channelId (AudioDataAt s data now),
      socket_emit_later st s (AudioAck True channelId (Some now) None)]"

text \<open>
  The events that one handler run causes, in the order they are emitted and each with its
  time: the handler's own emissions at the time \<open>t\<close> it runs, then those of each callback
  once its delay has elapsed, in the state \<open>later u\<close> the server is in at that time \<open>u\<close>.
\<close>

definition trace_of :: "int \<Rightarrow> (int \<Rightarrow> server) \<Rightarrow> result \<Rightarrow> (int \<times> emission) list" where
  "trace_of t later r =
     map (\<lambda>e. (t, e)) (fst (snd r)) @
     concat (map (\<lambda>(d, k). map (\<lambda>e. (t + int d, e)) (fire (later (t + int d)) (t + int d) k))
               (snd (snd r)))"

section \<open>The multi-channel backend\<close>

text \<open>
  The handlers that the connection handler registers for socket \<open>s\<close>. They share the
  Set \<^verbatim>\<open>userChannels\<close> of that connection, which exists once the socket has connected; a
  handler changes it in place.
\<close>

definition userChannels_of :: "server \<Rightarrow> sid \<Rightarrow> chan list" where
  "userChannels_of st s = (case map_of (userChannels st) s of Some cs \<Rightarrow> cs | None \<Rightarrow> [])"

text \<open>
  A new connection: Socket.IO registers the socket and puts it into the room named by its
  id, and the connection handler gives it an empty channel Set.
\<close>

definition connect :: "server \<Rightarrow> sid \<Rightarrow> server" where
  "connect st s =
     (socket_join st s s)\<lparr>sockets := set_add s (sockets st),
                           userChannels := AList.update s [] (userChannels st)\<rparr>"

fun str_of :: "jsval \<Rightarrow> string" where
  "str_of (JStr c) = c"
| "str_of v = js_String v"

definition joinChannel :: "server \<Rightarrow> sid \<Rightarrow> jsval \<Rightarrow> result" where
  "joinChannel st s channelId =
     (if \<not> truthy channelId \<or> \<not> is_string channelId then
        (st,
         [socket_emit s (JoinConfirmation
            (if js_String channelId = [] then ''unknown'' else js_String channelId)
            False (Some ''Invalid channel ID''))],
         [])
      else if set_has (userChannels_of st s) channelId then
        (st,
         [socket_emit s (JoinConfirmation (str_of channelId) True None),
          socket_emit s (ActiveUsers (members st channelId))],
         [])
      else
        (let st' = (socket_join st s (str_of channelId))
                     \<lparr>userChannels :=
                        AList.map_entry s (set_add (str_of channelId)) (userChannels st)\<rparr>;
             users = members st' channelId
         in (st',
             [socket_emit s (JoinConfirmation (str_of channelId) True None)],
             [(100, JoinNotify s (str_of channelId) users)])))"

definition leaveChannel :: "server \<Rightarrow> sid \<Rightarrow> jsval \<Rightarrow> result" where
  "leaveChannel st s channelId =
     (let st' = (socket_leave st s channelId)
                  \<lparr>userChannels := AList.map_entry s (set_delete channelId) (userChannels st)\<rparr>
      in (st', [io_to_emit st' channelId (UserLeft s)], []))"

definition pttStatus :: "server \<Rightarrow> sid \<Rightarrow> jsval \<Rightarrow> result" where
  "pttStatus st s data =
     (if \<not> truthy data \<or> \<not> truthy (get_prop data ''channelId'') then (st, [], [])
      else if \<not> set_has (userChannels_of st s) (get_prop data ''channelId'') then (st, [], [])
      else (st,
            [io_to_emit st (get_prop data ''channelId'')
               (PttStatus s (get_prop data ''status''))],
            []))"

text \<open>
  The handshake headers of the socket and the configured port give the prefix that turns
  an upload path into a full URL; \<^verbatim>\<open>a || b\<close> on header values takes \<open>b\<close> when \<open>a\<close> is
  missing or empty.
\<close>

definition header_or :: "(string \<times> string) list \<Rightarrow> string \<Rightarrow> string \<Rightarrow> string" where
  "header_or hs k d = (case map_of hs k of Some v \<Rightarrow> (if v = [] then d else v) | None \<Rightarrow> d)"

definition full_url :: "(string \<times> string) list \<Rightarrow> string \<Rightarrow> string \<Rightarrow> string" where
  "full_url hs port uri =
     header_or hs ''x-forwarded-proto'' ''http'' @ ''://'' @
     header_or hs ''host'' (header_or hs ''x-forwarded-host'' (''localhost:'' @ port)) @ uri"

definition audioData ::
  "server \<Rightarrow> (string \<times> string) list \<Rightarrow> string \<Rightarrow> sid \<Rightarrow> jsval \<Rightarrow> error + result" where
  "audioData st hs port s data =
     (if \<not> truthy data \<or> \<not> truthy (get_prop data ''channelId'') then Inr (st, [], [])
      else if \<not> set_has (userChannels_of st s) (get_prop data ''channelId'') then Inr (st, [], [])
      else
        (let d = get_prop data ''data'';
             relay = (\<lambda>d'. Inr (st,
                        [socket_to_emit st s (get_prop data ''channelId'') (AudioData s d')],
                        []))
         in if truthy d \<and> truthy (get_prop d ''uri'') then
              (case get_prop d ''uri'' of
                 JStr uri \<Rightarrow>
                   if take (length ''/uploads/'') uri = ''/uploads/''
                   then relay (set_prop d ''uri'' (JStr (full_url hs port uri)))
                   else relay d
               | v \<Rightarrow> Inl TypeError)
            else relay d))"

text \<open>
  Socket.IO takes the socket out of every room and out of the connected sockets before
  the \<^verbatim>\<open>disconnect\<close> handler runs; the handler then notifies each channel of the
  connection's Set and clears the Set.
\<close>

definition disconnect :: "server \<Rightarrow> sid \<Rightarrow> result" where
  "disconnect st s =
     (let st1 = st\<lparr>sockets := removeAll s (sockets st),
                     rooms := adapter_delAll s (rooms st)\<rparr>;
          outs = map (\<lambda>channelId. io_to_emit st1 (JStr channelId) (UserLeft s))
                   (userChannels_of st s)
      in (st1\<lparr>userChannels := AList.map_entry s (\<lambda>cs. []) (userChannels st1)\<rparr>, outs, []))"

text \<open>The same join request sent \<open>n\<close> times in a row, with everything it emits and schedules.\<close>

fun join_repeat :: "nat \<Rightarrow> server \<Rightarrow> sid \<Rightarrow> jsval \<Rightarrow> result" where
  "join_repeat 0 st s channelId = (st, [], [])"
| "join_repeat (Suc n) st s channelId =
     (case joinChannel st s channelId of
        (st1, outs1, timers1) \<Rightarrow>
          (case join_repeat n st1 s channelId of
             (st2, outs2, timers2) \<Rightarrow> (st2, outs1 @ outs2, timers1 @ timers2)))"

section \<open>The single-channel backend: push-to-talk and audio relay\<close>

text \<open>
  Both handlers destructure their payload in the parameter list, which throws a
  TypeError on \<^verbatim>\<open>null\<close> and \<^verbatim>\<open>undefined\<close>; \<open>now\<close> is \<^verbatim>\<open>Date.now()\<close> when the message is
  handled.
\<close>

definition updateActivity :: "server \<Rightarrow> sid \<Rightarrow> int \<Rightarrow> server" where
  "updateActivity st s now = st\<lparr>lastActivity := AList.update s now (lastActivity st)\<rparr>"

definition pttStatus_single :: "server \<Rightarrow> int \<Rightarrow> sid \<Rightarrow> jsval \<Rightarrow> error + result" where
  "pttStatus_single st now s payload =
     (if nullish payload then Inl TypeError
      else
        (let channelId = get_prop payload ''channelId'';
             status = get_prop payload ''status'';
             message = get_prop payload ''message'';
             st' = updateActivity st s now;
             broadcast = io_to_emit st' channelId (PttStatusMsg s status message None)
         in if status = JBool False then
              Inr (st',
                   [broadcast,
                    socket_emit s (PttAck channelId (JBool False) True (Some now) None)],
                   [(200, PttResend s channelId status message)])
            else Inr (st', [broadcast], [])))"

definition audioData_single :: "server \<Rightarrow> int \<Rightarrow> sid \<Rightarrow> jsval \<Rightarrow> error + result" where
  "audioData_single st now s payload =
     (if nullish payload then Inl TypeError
      else
        (let channelId = get_prop payload ''channelId'';
             data = get_prop payload ''data'';
             st' = updateActivity st s now
         in if \<not> truthy data \<or> \<not> truthy (get_prop data ''uri'') then
              Inr (st',
                   [socket_emit s (AudioAck False JUndefined None (Some ''Invalid audio data''))],
                   [])
            else
              Inr (st',
                   [io_to_emit st' channelId (PttStatus s (JBool False))],
                   [(200, AudioRelay s channelId data)])))"

section \<open>The media store\<close>

definition FILE_MAX_AGE_MS :: int where
  "FILE_MAX_AGE_MS = 4 * 60 * 1000"

definition CLEANUP_INTERVAL_MS :: int where
  "CLEANUP_INTERVAL_MS = 60 * 1000"

definition existsSync :: "fname \<Rightarrow> server \<Rightarrow> bool" where
  "existsSync f st = (map_of (disk st) f \<noteq> None)"

definition unlinkSync :: "fname \<Rightarrow> server \<Rightarrow> server" where
  "unlinkSync f st = st\<lparr>disk := AList.delete f (disk st)\<rparr>"

text \<open>
  The upload endpoint: the file has been written under its generated name with
  modification time \<open>written\<close>, and the handler records it with \<^verbatim>\<open>Date.now()\<close>.
\<close>

definition upload :: "fname \<Rightarrow> int \<Rightarrow> int \<Rightarrow> server \<Rightarrow> server" where
  "upload filename written now st =
     st\<lparr>disk := AList.update filename written (disk st),
        uploadedFiles := AList.update filename now (uploadedFiles st)\<rparr>"

text \<open>First loop of \<^verbatim>\<open>cleanupOldFiles\<close>: the tracked files.\<close>

fun cleanup_tracked :: "int \<Rightarrow> (fname \<times> int) list \<Rightarrow> server \<Rightarrow> server" where
  "cleanup_tracked now [] st = st"
| "cleanup_tracked now ((filename, timestamp) # rest) st =
     (if now - timestamp > FILE_MAX_AGE_MS then
        cleanup_tracked now rest
          ((if existsSync filename st then unlinkSync filename st else st)
             \<lparr>uploadedFiles := AList.delete filename (uploadedFiles st)\<rparr>)
      else cleanup_tracked now rest st)"

text \<open>
  Second loop: the directory listing. \<^verbatim>\<open>statSync\<close> throws when the file is gone, and the
  surrounding \<^verbatim>\<open>catch\<close> then ends the scan.
\<close>

fun scan_untracked :: "int \<Rightarrow> fname list \<Rightarrow> server \<Rightarrow> server" where
  "scan_untracked now [] st = st"
| "scan_untracked now (file # rest) st =
     (if map_of (uploadedFiles st) file \<noteq> None then scan_untracked now rest st
      else
        (case map_of (disk st) file of
           None \<Rightarrow> st
         | Some mtime \<Rightarrow>
             if now - mtime > FILE_MAX_AGE_MS
             then scan_untracked now rest (unlinkSync file st)
             else scan_untracked now rest
                    (st\<lparr>uploadedFiles := AList.update file mtime (uploadedFiles st)\<rparr>)))"

definition cleanupOldFiles :: "int \<Rightarrow> server \<Rightarrow> server" where
  "cleanupOldFiles now st =
     (let st1 = cleanup_tracked now (uploadedFiles st) st
      in scan_untracked now (map fst (disk st1)) st1)"

text \<open>Whether the entries \<open>es\<close> of the tracking Map hold an expired entry for file \<open>f\<close>.\<close>

fun expired_entry :: "int \<Rightarrow> (fname \<times> int) list \<Rightarrow> fname \<Rightarrow> bool" where
  "expired_entry now [] f = False"
| "expired_entry now ((g, ts) # es) f =
     ((f = g \<and> now - ts > FILE_MAX_AGE_MS) \<or> expired_entry now es f)"

text \<open>What happens to the store over time: sweeps and uploads, each at its time.\<close>

datatype media_op = Sweep int | Upload fname int int

fun media_step :: "media_op \<Rightarrow> server \<Rightarrow> server" where
  "media_step (Sweep now) st = cleanupOldFiles now st"
| "media_step (Upload filename written now) st = upload filename written now st"

definition run_media :: "media_op list \<Rightarrow> server \<Rightarrow> server" where
  "run_media ops st = fold media_step ops st"

fun uploads_file :: "fname \<Rightarrow> media_op \<Rightarrow> bool" where
  "uploads_file f (Upload g written now) = (f = g)"
| "uploads_file f (Sweep now) = False"

fun sweep_time :: "media_op \<Rightarrow> int option" where
  "sweep_time (Sweep now) = Some now"
| "sweep_time (Upload g written now) = None"

text \<open>
  \<^verbatim>\<open>setInterval(cleanupOldFiles, CLEANUP_INTERVAL_MS)\<close> with a timer that fires on time: the
  sweeps at \<open>s0\<close>, \<open>s0 + interval\<close>, \<open>s0 + 2 * interval\<close>, ... that have run by time \<open>t\<close>.
\<close>

definition sweeps_until :: "int \<Rightarrow> int \<Rightarrow> media_op list" where
  "sweeps_until s0 t =
     (if t < s0 then []
      else map (\<lambda>k. Sweep (s0 + int k * CLEANUP_INTERVAL_MS))
             [0 ..< Suc (nat ((t - s0) div CLEANUP_INTERVAL_MS))])"

text \<open>Retrieval is a plain read of the uploads directory.\<close>

definition retrievable :: "server \<Rightarrow> fname \<Rightarrow> bool" where
  "retrievable st f = existsSync f st"

section \<open>Well-formed states\<close>

text \<open>
  Rooms are non-empty Sets, channel Sets have no duplicates, and every channel in a
  connection's Set is a non-empty name of a room the connection is in. The directory and
  the tracking Map have one entry per name.
\<close>

definition rooms_ok :: "(chan \<times> sid list) list \<Rightarrow> bool" where
  "rooms_ok rs = list_all (\<lambda>c. room_members rs c \<noteq> [] \<and> distinct (room_members rs c)) (map fst rs)"

definition channels_ok :: "server \<Rightarrow> bool" where
  "channels_ok st =
     list_all (\<lambda>s. distinct (userChannels_of st s) \<and>
                   list_all (\<lambda>c. c \<noteq> [] \<and> s \<in> set (room_members (rooms st) c))
                     (userChannels_of st s))
       (map fst (userChannels st))"

definition well_formed :: "server \<Rightarrow> bool" where
  "well_formed st = (rooms_ok (rooms st) \<and> channels_ok st)"

text \<open>The connection handler has run for socket \<open>s\<close>: its channel Set exists.\<close>

definition has_connection :: "server \<Rightarrow> sid \<Rightarrow> bool" where
  "has_connection st s = (s \<in> set (map fst (userChannels st)))"

definition store_ok :: "server \<Rightarrow> bool" where
  "store_ok st = (distinct (map fst (disk st)) \<and> distinct (map fst (uploadedFiles st)))"

section \<open>Reachable states\<close>

text \<open>
  The states of the multi-channel backend and its media store: the server starts empty;
  sockets connect under fresh ids; a connected socket sends join and leave requests and
  disconnects; files are uploaded and the sweep runs. Push-to-talk and audio
  messages do not change the state.
\<close>

inductive reachable :: "server \<Rightarrow> bool" where
  reachable_init: "reachable init"
| reachable_connect: "reachable st \<Longrightarrow> \<not> has_connection st s \<Longrightarrow> reachable (connect st s)"
| reachable_join: "reachable st \<Longrightarrow> connected st s \<Longrightarrow> reachable (fst (joinChannel st s v))"
| reachable_leave: "reachable st \<Longrightarrow> connected st s \<Longrightarrow> reachable (fst (leaveChannel st s v))"
| reachable_disconnect: "reachable st \<Longrightarrow> connected st s \<Longrightarrow> reachable (fst (disconnect st s))"
| reachable_media: "reachable st \<Longrightarrow> reachable (media_step op st)"

section \<open>A sample session\<close>

text \<open>Clients A and B are connected and both tuned to the same frequency; C is connected only.\<close>

definition two_in_channel :: server where
  "two_in_channel =
     \<lparr>sockets = [''A'', ''B'', ''C''],
      rooms = [(''A'', [''A'']), (''B'', [''B'']), (''C'', [''C'']),
               (''freq-446.00'', [''A'', ''B''])],
      userChannels = [(''A'', [''freq-446.00'']), (''B'', [''freq-446.00'']), (''C'', [])],
      lastActivity = [],
      uploadedFiles = [],
      disk = []\<rparr>"

text \<open>
  The same, after C has sent \<^verbatim>\<open>leaveChannel\<close> with its own socket id: C is still connected
  but no longer in the room named by its id, which is gone.
\<close>

definition own_room_left :: server where
  "own_room_left =
     \<lparr>sockets = [''A'', ''B'', ''C''],
      rooms = [(''A'', [''A'']), (''B'', [''B'']), (''freq-446.00'', [''A'', ''B''])],
      userChannels = [(''A'', [''freq-446.00'']), (''B'', [''freq-446.00'']), (''C'', [])],
      lastActivity = [],
      uploadedFiles = [],
      disk = []\<rparr>"

text \<open>Client A is tuned to two frequencies, and alone on the second.\<close>

definition two_channels :: server where
  "two_channels =
     \<lparr>sockets = [''A'', ''B''],
      rooms = [(''A'', [''A'']), (''B'', [''B'']),
               (''freq-446.00'', [''A'', ''B'']), (''freq-446.50'', [''A''])],
      userChannels = [(''A'', [''freq-446.00'', ''freq-446.50'']), (''B'', [''freq-446.00''])],
      lastActivity = [],
      uploadedFiles = [],
      disk = []\<rparr>"

text \<open>
  An uploads directory with one tracked file and two that are not tracked, one old and
  one recent.
\<close>

definition sample_store :: server where
  "sample_store =
     \<lparr>sockets = [], rooms = [], userChannels = [], lastActivity = [],
      uploadedFiles = [(''old.m4a'', 0)],
      disk = [(''old.m4a'', 0), (''stray-old.m4a'', 5000), (''stray-new.m4a'', 200000)]\<rparr>"

section \<open>Rooms and well-formedness: basic facts\<close>

lemma room_members_add:
  "room_members (adapter_add s c rs) c' =
     (if c' = c then set_add s (room_members rs c) else room_members rs c')"
  by (simp add: room_members_def adapter_add_def update_conv')

lemma map_of_adapter_del:
  "map_of (adapter_del s c rs) c' =
     (if c' = c then
        (case map_of rs c of None \<Rightarrow> None
         | Some ms \<Rightarrow> if removeAll s ms = [] then None else Some (removeAll s ms))
      else map_of rs c')"
  by (simp add: adapter_del_def update_conv' delete_conv' split: option.splits)

lemma room_members_del:
  "room_members (adapter_del s c rs) c' =
     (if c' = c then removeAll s (room_members rs c) else room_members rs c')"
  by (simp add: room_members_def map_of_adapter_del split: option.splits)

lemma room_members_fold_del:
  "room_members (fold (adapter_del s) cs rs) c' =
     (if c' \<in> set cs then removeAll s (room_members rs c') else room_members rs c')"
  by (induction cs arbitrary: rs) (auto simp: room_members_del)

lemma room_members_no_room: "c \<notin> fst ` set rs \<Longrightarrow> room_members rs c = []"
  by (simp add: room_members_def map_of_eq_None_iff[THEN iffD2])

lemma room_members_delAll:
  "room_members (adapter_delAll s rs) c = removeAll s (room_members rs c)"
  by (cases "c \<in> fst ` set rs")
     (simp_all add: adapter_delAll_def room_members_fold_del room_members_no_room)

lemma key_has_value: "c \<in> fst ` set rs \<Longrightarrow> \<exists>v. map_of rs c = Some v"
  by (induction rs) auto

lemma value_has_key: "map_of rs c = Some v \<Longrightarrow> c \<in> fst ` set rs"
  by (induction rs) (auto split: if_splits)

lemma rooms_ok_iff:
  "rooms_ok rs \<longleftrightarrow> (\<forall>c ms. map_of rs c = Some ms \<longrightarrow> ms \<noteq> [] \<and> distinct ms)"
proof
  assume ok: "rooms_ok rs"
  show "\<forall>c ms. map_of rs c = Some ms \<longrightarrow> ms \<noteq> [] \<and> distinct ms"
  proof (intro allI impI)
    fix c ms
    assume m: "map_of rs c = Some ms"
    then have "c \<in> fst ` set rs"
      by (rule value_has_key)
    then have "room_members rs c \<noteq> [] \<and> distinct (room_members rs c)"
      using ok by (auto simp: rooms_ok_def list_all_iff)
    then show "ms \<noteq> [] \<and> distinct ms"
      using m by (simp add: room_members_def)
  qed
next
  assume h: "\<forall>c ms. map_of rs c = Some ms \<longrightarrow> ms \<noteq> [] \<and> distinct ms"
  have "room_members rs c \<noteq> [] \<and> distinct (room_members rs c)" if "c \<in> fst ` set rs" for c
  proof -
    from key_has_value[OF that] obtain ms where m: "map_of rs c = Some ms" ..
    with h have "ms \<noteq> [] \<and> distinct ms" by blast
    then show ?thesis using m by (simp add: room_members_def)
  qed
  then show "rooms_ok rs"
    by (auto simp: rooms_ok_def list_all_iff)
qed

lemma set_add_props: "distinct xs \<Longrightarrow> distinct (set_add x xs)" "set_add x xs \<noteq> []"
  "set (set_add x xs) = insert x (set xs)"
  by (auto simp: set_add_def)

lemma rooms_okD: "rooms_ok rs \<Longrightarrow> map_of rs c = Some ms \<Longrightarrow> ms \<noteq> [] \<and> distinct ms"
  using rooms_ok_iff by blast

lemma rooms_okI: "(\<And>c ms. map_of rs c = Some ms \<Longrightarrow> ms \<noteq> [] \<and> distinct ms) \<Longrightarrow> rooms_ok rs"
  using rooms_ok_iff by blast

lemma distinct_room_members: "rooms_ok rs \<Longrightarrow> distinct (room_members rs c)"
  using rooms_okD[of rs c] by (cases "map_of rs c") (simp_all add: room_members_def)

lemma rooms_ok_add:
  assumes "rooms_ok rs"
  shows "rooms_ok (adapter_add s c rs)"
proof (rule rooms_okI)
  fix c' ms
  assume m: "map_of (adapter_add s c rs) c' = Some ms"
  show "ms \<noteq> [] \<and> distinct ms"
  proof (cases "c' = c")
    case True
    with m have "ms = set_add s (room_members rs c)"
      by (simp add: adapter_add_def update_conv')
    then show ?thesis
      using distinct_room_members[OF assms, of c] by (simp add: set_add_props)
  next
    case False
    with m have "map_of rs c' = Some ms"
      by (simp add: adapter_add_def update_conv')
    then show ?thesis
      using assms by (rule rooms_okD[rotated])
  qed
qed

lemma rooms_ok_del:
  assumes "rooms_ok rs"
  shows "rooms_ok (adapter_del s c rs)"
proof (rule rooms_okI)
  fix c' ms
  assume m: "map_of (adapter_del s c rs) c' = Some ms"
  show "ms \<noteq> [] \<and> distinct ms"
  proof (cases "c' = c")
    case True
    with m obtain ms0 where "map_of rs c = Some ms0" "ms = removeAll s ms0" "ms \<noteq> []"
      by (auto simp: map_of_adapter_del split: option.splits if_splits)
    then show ?thesis
      using rooms_okD[OF assms, of c ms0] by (simp add: distinct_removeAll)
  next
    case False
    with m have "map_of rs c' = Some ms"
      by (simp add: map_of_adapter_del)
    then show ?thesis
      using assms by (rule rooms_okD[rotated])
  qed
qed

lemma rooms_ok_fold_del: "rooms_ok rs \<Longrightarrow> rooms_ok (fold (adapter_del s) cs rs)"
  by (induction cs arbitrary: rs) (simp_all add: rooms_ok_del)

lemma rooms_ok_delAll: "rooms_ok rs \<Longrightarrow> rooms_ok (adapter_delAll s rs)"
  by (simp add: adapter_delAll_def rooms_ok_fold_del)

lemma channels_ok_iff:
  "channels_ok st \<longleftrightarrow>
     (\<forall>s cs. map_of (userChannels st) s = Some cs \<longrightarrow>
        distinct cs \<and> (\<forall>c\<in>set cs. c \<noteq> [] \<and> s \<in> set (room_members (rooms st) c)))"
  (is "_ \<longleftrightarrow> (\<forall>s cs. _ \<longrightarrow> ?P s cs)")
proof
  assume ok: "channels_ok st"
  show "\<forall>s cs. map_of (userChannels st) s = Some cs \<longrightarrow> ?P s cs"
  proof (intro allI impI)
    fix s cs
    assume m: "map_of (userChannels st) s = Some cs"
    then have "s \<in> fst ` set (userChannels st)"
      by (rule value_has_key)
    then have "?P s (userChannels_of st s)"
      using ok by (auto simp: channels_ok_def list_all_iff)
    then show "?P s cs"
      using m by (simp add: userChannels_of_def)
  qed
next
  assume h: "\<forall>s cs. map_of (userChannels st) s = Some cs \<longrightarrow> ?P s cs"
  have "?P s (userChannels_of st s)" if "s \<in> fst ` set (userChannels st)" for s
  proof -
    from key_has_value[OF that] obtain cs where m: "map_of (userChannels st) s = Some cs" ..
    with h have "?P s cs" by blast
    then show ?thesis using m by (simp add: userChannels_of_def)
  qed
  then show "channels_ok st"
    by (auto simp: channels_ok_def list_all_iff)
qed


lemma channels_okD:
  "channels_ok st \<Longrightarrow> map_of (userChannels st) s = Some cs \<Longrightarrow>
     distinct cs \<and> (\<forall>c\<in>set cs. c \<noteq> [] \<and> s \<in> set (room_members (rooms st) c))"
  using channels_ok_iff by blast

lemma channels_okI:
  "(\<And>s cs. map_of (userChannels st) s = Some cs \<Longrightarrow>
       distinct cs \<and> (\<forall>c\<in>set cs. c \<noteq> [] \<and> s \<in> set (room_members (rooms st) c)))
   \<Longrightarrow> channels_ok st"
  using channels_ok_iff by blast

lemma wf_init: "well_formed init"
  by (simp add: well_formed_def init_def rooms_ok_def channels_ok_def)

lemma in_room_add:
  "x \<in> set (room_members rs c') \<Longrightarrow> x \<in> set (room_members (adapter_add s c rs) c')"
  by (auto simp: room_members_add set_add_props)

lemma in_room_del:
  "x \<in> set (room_members rs c') \<Longrightarrow> x \<noteq> s \<or> c' \<noteq> c \<Longrightarrow>
     x \<in> set (room_members (adapter_del s c rs) c')"
  by (auto simp: room_members_del)

lemma wf_connect:
  assumes "well_formed st"
  shows "well_formed (connect st s)"
proof -
  have r: "rooms_ok (rooms (connect st s))"
    using assms by (simp add: well_formed_def connect_def socket_join_def rooms_ok_add)
  have "channels_ok (connect st s)"
  proof (rule channels_okI)
    fix s' cs
    assume m: "map_of (userChannels (connect st s)) s' = Some cs"
    show "distinct cs \<and> (\<forall>c\<in>set cs. c \<noteq> [] \<and> s' \<in> set (room_members (rooms (connect st s)) c))"
    proof (cases "s' = s")
      case True
      with m show ?thesis by (simp add: connect_def update_conv')
    next
      case False
      with m have "map_of (userChannels st) s' = Some cs"
        by (simp add: connect_def update_conv')
      from channels_okD[OF _ this] assms show ?thesis
        by (simp add: well_formed_def connect_def socket_join_def in_room_add)
    qed
  qed
  with r show ?thesis by (simp add: well_formed_def)
qed

lemma joinChannel_cases:
  "(\<not> truthy v \<or> \<not> is_string v) \<or> (\<exists>c. v = JStr c \<and> c \<noteq> [])"
  by (cases v) auto

lemma wf_join_new:
  assumes "well_formed st" and c: "c \<noteq> []"
  shows "well_formed ((socket_join st s c)\<lparr>userChannels := AList.map_entry s (set_add c) (userChannels st)\<rparr>)"
    (is "well_formed ?st'")
proof -
  have r: "rooms_ok (rooms ?st')"
    using assms by (simp add: well_formed_def socket_join_def rooms_ok_add)
  have "channels_ok ?st'"
  proof (rule channels_okI)
    fix s' cs
    assume m: "map_of (userChannels ?st') s' = Some cs"
    show "distinct cs \<and> (\<forall>x\<in>set cs. x \<noteq> [] \<and> s' \<in> set (room_members (rooms ?st') x))"
    proof (cases "s' = s")
      case True
      with m obtain cs0 where m0: "map_of (userChannels st) s = Some cs0" and cs: "cs = set_add c cs0"
        by (auto simp: map_of_map_entry split: option.splits)
      from channels_okD[OF _ m0] assms
      have d: "distinct cs0" and old: "\<forall>x\<in>set cs0. x \<noteq> [] \<and> s \<in> set (room_members (rooms st) x)"
        by (simp_all add: well_formed_def)
      have "s \<in> set (room_members (rooms ?st') c)"
        by (simp add: socket_join_def room_members_add set_add_props)
      moreover have "\<forall>x\<in>set cs0. x \<noteq> [] \<and> s \<in> set (room_members (rooms ?st') x)"
        using old by (simp add: socket_join_def in_room_add)
      ultimately show ?thesis
        using d c True by (simp add: cs set_add_props)
    next
      case False
      with m have "map_of (userChannels st) s' = Some cs"
        by (simp add: map_of_map_entry)
      from channels_okD[OF _ this] assms show ?thesis
        by (simp add: well_formed_def socket_join_def in_room_add)
    qed
  qed
  with r show ?thesis by (simp add: well_formed_def)
qed

lemma wf_joinChannel: "well_formed st \<Longrightarrow> well_formed (fst (joinChannel st s v))"
  using joinChannel_cases[of v]
  by (auto simp: joinChannel_def Let_def wf_join_new)


lemma map_entry_same: "(\<And>v. f v = v) \<Longrightarrow> AList.map_entry k f al = al"
  by (induction al) auto

lemma set_delete_str: "set_delete (JStr c) = removeAll c"
  by (rule ext) simp

lemma wf_leave_str:
  assumes "well_formed st"
  shows "well_formed (fst (leaveChannel st s (JStr c)))"
proof -
  let ?st' = "fst (leaveChannel st s (JStr c))"
  have rs: "rooms ?st' = adapter_del s c (rooms st)"
    and uc: "userChannels ?st' = AList.map_entry s (removeAll c) (userChannels st)"
    by (simp_all add: leaveChannel_def Let_def set_delete_str)
  have r: "rooms_ok (rooms ?st')"
    using assms by (simp add: rs well_formed_def rooms_ok_del)
  have "channels_ok ?st'"
  proof (rule channels_okI)
    fix s' cs
    assume m: "map_of (userChannels ?st') s' = Some cs"
    show "distinct cs \<and> (\<forall>x\<in>set cs. x \<noteq> [] \<and> s' \<in> set (room_members (rooms ?st') x))"
    proof (cases "s' = s")
      case True
      with m obtain cs0 where m0: "map_of (userChannels st) s = Some cs0" and cs: "cs = removeAll c cs0"
        by (auto simp: uc map_of_map_entry split: option.splits)
      from channels_okD[OF _ m0] assms
      have d: "distinct cs0" and old: "\<forall>x\<in>set cs0. x \<noteq> [] \<and> s \<in> set (room_members (rooms st) x)"
        by (simp_all add: well_formed_def)
      show ?thesis
        using d old True by (auto simp: rs cs distinct_removeAll room_members_del)
    next
      case False
      with m have "map_of (userChannels st) s' = Some cs"
        by (simp add: uc map_of_map_entry)
      from channels_okD[OF _ this] assms False show ?thesis
        by (auto simp: rs well_formed_def room_members_del)
    qed
  qed
  with r show ?thesis by (simp add: well_formed_def)
qed

lemma leave_non_string: "\<not> is_string v \<Longrightarrow> fst (leaveChannel st s v) = st"
  by (cases v) (simp_all add: leaveChannel_def Let_def map_entry_same)

lemma wf_leaveChannel: "well_formed st \<Longrightarrow> well_formed (fst (leaveChannel st s v))"
  by (cases v) (simp_all add: leave_non_string wf_leave_str)

lemma wf_disconnect:
  assumes "well_formed st"
  shows "well_formed (fst (disconnect st s))"
proof -
  let ?st' = "fst (disconnect st s)"
  have rs: "rooms ?st' = adapter_delAll s (rooms st)"
    and uc: "userChannels ?st' = AList.map_entry s (\<lambda>cs. []) (userChannels st)"
    by (simp_all add: disconnect_def Let_def)
  have r: "rooms_ok (rooms ?st')"
    using assms by (simp add: rs well_formed_def rooms_ok_delAll)
  have "channels_ok ?st'"
  proof (rule channels_okI)
    fix s' cs
    assume m: "map_of (userChannels ?st') s' = Some cs"
    show "distinct cs \<and> (\<forall>x\<in>set cs. x \<noteq> [] \<and> s' \<in> set (room_members (rooms ?st') x))"
    proof (cases "s' = s")
      case True
      with m have "cs = []"
        by (auto simp: uc map_of_map_entry split: option.splits)
      then show ?thesis by simp
    next
      case False
      with m have "map_of (userChannels st) s' = Some cs"
        by (simp add: uc map_of_map_entry)
      from channels_okD[OF _ this] assms False show ?thesis
        by (auto simp: rs well_formed_def room_members_delAll)
    qed
  qed
  with r show ?thesis by (simp add: well_formed_def)
qed

section \<open>Claims about the channel relay\<close>

text \<open>
  The handlers of this section are those of the multi-channel backend, the model the
  specification adopts.
\<close>

lemma member_facts:
  assumes "well_formed st" and "c \<in> set (userChannels_of st s)"
  shows "c \<noteq> []" and "s \<in> set (room_members (rooms st) c)"
proof -
  from assms(2) obtain cs where m: "map_of (userChannels st) s = Some cs" and c: "c \<in> set cs"
    by (cases "map_of (userChannels st) s") (simp_all add: userChannels_of_def)
  from channels_okD[OF _ m] assms(1) c
  show "c \<noteq> []" and "s \<in> set (room_members (rooms st) c)"
    by (simp_all add: well_formed_def)
qed

lemma distinct_userChannels: "well_formed st \<Longrightarrow> distinct (userChannels_of st s)"
  using channels_okD[of st s]
  by (cases "map_of (userChannels st) s") (simp_all add: userChannels_of_def well_formed_def)

lemma wf_two_in_channel: "well_formed two_in_channel"
  by (simp add: well_formed_def rooms_ok_def channels_ok_def two_in_channel_def
        room_members_def userChannels_of_def)

lemma wf_two_channels: "well_formed two_channels"
  by (simp add: well_formed_def rooms_ok_def channels_ok_def two_channels_def
        room_members_def userChannels_of_def)

lemma has_connection_two_in_channel: "has_connection two_in_channel ''C''"
  by (simp add: has_connection_def two_in_channel_def)

subsection \<open>Joining\<close>

text \<open>
  What a join of a channel the connection is not yet in produces. Before the handler
  returns it emits exactly one event: the success \<^verbatim>\<open>joinConfirmation\<close>, to the joiner
  alone. It schedules exactly one callback, 100 ms later, which sends the roster
  (\<^verbatim>\<open>activeUsers\<close>) to the joiner, reaching it if it is still connected, and then
  \<^verbatim>\<open>userJoined\<close> to the members the channel then has, leaving out the sockets that are
  then in the room named by the joiner's id. When at that moment the joiner is connected
  and alone in the room named by its id, the roster reaches the joiner and the notice
  reaches exactly the other members of the channel. In the trace of the join the
  confirmation comes first, at the time of the request, and the roster and the notice
  follow 100 ms later.
\<close>
lemma join_confirmation_then_roster:
  assumes "c \<noteq> []" and "c \<notin> set (userChannels_of st s)"
  shows "\<exists>st' users.
           joinChannel st s (JStr c) =
             (st', [Emit (ToSocket s) (JoinConfirmation c True None) [s]],
                   [(100, JoinNotify s c users)]) \<and>
           users = room_members (rooms st') c \<and>
           s \<in> set users \<and>
           (\<forall>t later.
              trace_of t later (joinChannel st s (JStr c)) =
                [(t, Emit (ToSocket s) (JoinConfirmation c True None) [s]),
                 (t + 100, Emit (ToSocket s) (ActiveUsers users)
                             (if connected (later (t + 100)) s then [s] else [])),
                 (t + 100, Emit (ToRoomExcept (JStr c) s) (UserJoined s)
                             (filter (\<lambda>r. r \<notin> set (room_members (rooms (later (t + 100))) s))
                                (room_members (rooms (later (t + 100))) c)))]) \<and>
           (\<forall>t later.
              connected (later (t + 100)) s \<and>
              room_members (rooms (later (t + 100))) s = [s] \<longrightarrow>
              trace_of t later (joinChannel st s (JStr c)) =
                [(t, Emit (ToSocket s) (JoinConfirmation c True None) [s]),
                 (t + 100, Emit (ToSocket s) (ActiveUsers users) [s]),
                 (t + 100, Emit (ToRoomExcept (JStr c) s) (UserJoined s)
                             (filter (\<lambda>r. r \<noteq> s) (room_members (rooms (later (t + 100))) c)))])"
  using assms
  by (simp add: joinChannel_def Let_def socket_emit_def socket_emit_later_def socket_to_emit_def
        socket_join_def room_members_add set_add_props trace_of_def)

text \<open>C joins the frequency A and B are tuned to: the notice reaches A and B.\<close>
lemma third_client_joins:
  "''freq-446.00'' \<noteq> [] \<and>
   ''freq-446.00'' \<notin> set (userChannels_of two_in_channel ''C'') \<and>
   connected (fst (joinChannel two_in_channel ''C'' (JStr ''freq-446.00''))) ''C'' \<and>
   room_members (rooms (fst (joinChannel two_in_channel ''C'' (JStr ''freq-446.00'')))) ''C''
     = [''C''] \<and>
   trace_of 5000 (\<lambda>u. fst (joinChannel two_in_channel ''C'' (JStr ''freq-446.00'')))
       (joinChannel two_in_channel ''C'' (JStr ''freq-446.00'')) =
     [(5000, Emit (ToSocket ''C'') (JoinConfirmation ''freq-446.00'' True None) [''C'']),
      (5100, Emit (ToSocket ''C'') (ActiveUsers [''A'', ''B'', ''C'']) [''C'']),
      (5100, Emit (ToRoomExcept (JStr ''freq-446.00'') ''C'') (UserJoined ''C'') [''A'', ''B''])]"
proof -
  let ?st1 = "fst (joinChannel two_in_channel ''C'' (JStr ''freq-446.00''))"
  have h1: "''freq-446.00'' \<noteq> []" by simp
  have h2: "''freq-446.00'' \<notin> set (userChannels_of two_in_channel ''C'')"
    by (simp add: two_in_channel_def userChannels_of_def)
  have hc: "connected ?st1 ''C''" by code_simp
  have hr: "room_members (rooms ?st1) ''C'' = [''C'']" by code_simp
  have rc: "room_members (rooms ?st1) ''freq-446.00'' = [''A'', ''B'', ''C'']" by code_simp
  from join_confirmation_then_roster[OF h1 h2]
  obtain st' users where j: "joinChannel two_in_channel ''C'' (JStr ''freq-446.00'') =
             (st', [Emit (ToSocket ''C'') (JoinConfirmation ''freq-446.00'' True None) [''C'']],
                   [(100, JoinNotify ''C'' ''freq-446.00'' users)])"
    and u: "users = room_members (rooms st') ''freq-446.00''"
    and tr: "\<And>t later. connected (later (t + 100)) ''C'' \<and>
              room_members (rooms (later (t + 100))) ''C'' = [''C''] \<Longrightarrow>
              trace_of t later (joinChannel two_in_channel ''C'' (JStr ''freq-446.00'')) =
                [(t, Emit (ToSocket ''C'') (JoinConfirmation ''freq-446.00'' True None) [''C'']),
                 (t + 100, Emit (ToSocket ''C'') (ActiveUsers users) [''C'']),
                 (t + 100, Emit (ToRoomExcept (JStr ''freq-446.00'') ''C'') (UserJoined ''C'')
                             (filter (\<lambda>r. r \<noteq> ''C'')
                                (room_members (rooms (later (t + 100))) ''freq-446.00'')))]"
    by blast
  from j have "st' = ?st1" by simp
  with u rc have us: "users = [''A'', ''B'', ''C'']" by simp
  from tr[of "\<lambda>u. ?st1" 5000] hc hr
  have "trace_of 5000 (\<lambda>u. ?st1) (joinChannel two_in_channel ''C'' (JStr ''freq-446.00'')) =
     [(5000, Emit (ToSocket ''C'') (JoinConfirmation ''freq-446.00'' True None) [''C'']),
      (5100, Emit (ToSocket ''C'') (ActiveUsers [''A'', ''B'', ''C'']) [''C'']),
      (5100, Emit (ToRoomExcept (JStr ''freq-446.00'') ''C'') (UserJoined ''C'') [''A'', ''B''])]"
    by (simp add: us rc)
  with h1 h2 hc hr show ?thesis by blast
qed

text \<open>
  Claim C1 has the \<^verbatim>\<open>userJoined\<close> notice of a join go to the other members of the channel
  and not to the joiner, and so does the handler's own comment on the call (``Notify
  other users in the channel''). The code does otherwise for a joiner that is no longer
  in the room named by its socket id when the callback runs, which a \<^verbatim>\<open>leaveChannel\<close>
  message with that id as the channel brings about: the room is gone, nobody is left
  out, and the notice is delivered to every member of the channel, the joiner among them.
\<close>
theorem joiner_gets_own_notice:
  assumes "c \<noteq> []" and "c \<notin> set (userChannels_of st s)"
    and "room_members (rooms (later (t + 100))) s = []"
  shows "trace_of t later (joinChannel st s (JStr c)) =
           [(t, Emit (ToSocket s) (JoinConfirmation c True None) [s]),
            (t + 100, Emit (ToSocket s)
                        (ActiveUsers (room_members (rooms (fst (joinChannel st s (JStr c)))) c))
                        (if connected (later (t + 100)) s then [s] else [])),
            (t + 100, Emit (ToRoomExcept (JStr c) s) (UserJoined s)
                        (room_members (rooms (later (t + 100))) c))]"
  using assms
  by (simp add: joinChannel_def Let_def socket_emit_def socket_emit_later_def socket_to_emit_def
        socket_join_def trace_of_def)

text \<open>
  Client C has sent \<^verbatim>\<open>leaveChannel\<close> with its own socket id and then joins the frequency
  of A and B: the notice for C is delivered to A, B and C itself.
\<close>
theorem joiner_gets_own_notice_witness:
  "fst (leaveChannel two_in_channel ''C'' (JStr ''C'')) = own_room_left \<and>
   ''freq-446.00'' \<noteq> [] \<and>
   ''freq-446.00'' \<notin> set (userChannels_of own_room_left ''C'') \<and>
   room_members (rooms (fst (joinChannel own_room_left ''C'' (JStr ''freq-446.00'')))) ''C'' = [] \<and>
   trace_of 5000 (\<lambda>u. fst (joinChannel own_room_left ''C'' (JStr ''freq-446.00'')))
       (joinChannel own_room_left ''C'' (JStr ''freq-446.00'')) =
     [(5000, Emit (ToSocket ''C'') (JoinConfirmation ''freq-446.00'' True None) [''C'']),
      (5100, Emit (ToSocket ''C'') (ActiveUsers [''A'', ''B'', ''C'']) [''C'']),
      (5100, Emit (ToRoomExcept (JStr ''freq-446.00'') ''C'') (UserJoined ''C'')
               [''A'', ''B'', ''C''])]"
proof -
  let ?st1 = "fst (joinChannel own_room_left ''C'' (JStr ''freq-446.00''))"
  have l: "fst (leaveChannel two_in_channel ''C'' (JStr ''C'')) = own_room_left" by code_simp
  have h1: "''freq-446.00'' \<noteq> []" by simp
  have h2: "''freq-446.00'' \<notin> set (userChannels_of own_room_left ''C'')" by code_simp
  have h3: "room_members (rooms ((\<lambda>u. ?st1) (5000 + 100))) ''C'' = []" by code_simp
  have hc: "connected ?st1 ''C''" by code_simp
  have rc: "room_members (rooms ?st1) ''freq-446.00'' = [''A'', ''B'', ''C'']" by code_simp
  from joiner_gets_own_notice[OF h1 h2 h3] hc rc
  have "trace_of 5000 (\<lambda>u. ?st1) (joinChannel own_room_left ''C'' (JStr ''freq-446.00'')) =
     [(5000, Emit (ToSocket ''C'') (JoinConfirmation ''freq-446.00'' True None) [''C'']),
      (5100, Emit (ToSocket ''C'') (ActiveUsers [''A'', ''B'', ''C'']) [''C'']),
      (5100, Emit (ToRoomExcept (JStr ''freq-446.00'') ''C'') (UserJoined ''C'')
               [''A'', ''B'', ''C''])]"
    by simp
  with l h1 h2 h3 show ?thesis by simp
qed

text \<open>
  The scenario of the specification: B joins the frequency A is tuned to. B gets the
  confirmation at once and, 100 ms later, the roster of A and B; A gets the notice.
\<close>
lemma second_client_joins:
  "trace_of 5000 (\<lambda>u. fst (joinChannel (fst (joinChannel (connect (connect init ''A'') ''B'')
                                              ''A'' (JStr ''freq-446.00'')))
                            ''B'' (JStr ''freq-446.00'')))
     (joinChannel (fst (joinChannel (connect (connect init ''A'') ''B'')
                          ''A'' (JStr ''freq-446.00'')))
        ''B'' (JStr ''freq-446.00'')) =
   [(5000, Emit (ToSocket ''B'') (JoinConfirmation ''freq-446.00'' True None) [''B'']),
    (5100, Emit (ToSocket ''B'') (ActiveUsers [''A'', ''B'']) [''B'']),
    (5100, Emit (ToRoomExcept (JStr ''freq-446.00'') ''B'') (UserJoined ''B'') [''A''])]"
  by code_simp

text \<open>
  When the joiner has disconnected before the callback runs, the roster reaches nobody;
  the notice still goes to the channel, which the joiner has left by then.
\<close>
lemma joiner_gone_before_roster:
  "trace_of 5000
     (\<lambda>u. fst (disconnect (fst (joinChannel two_in_channel ''C'' (JStr ''freq-446.00''))) ''C''))
     (joinChannel two_in_channel ''C'' (JStr ''freq-446.00'')) =
   [(5000, Emit (ToSocket ''C'') (JoinConfirmation ''freq-446.00'' True None) [''C'']),
    (5100, Emit (ToSocket ''C'') (ActiveUsers [''A'', ''B'', ''C'']) []),
    (5100, Emit (ToRoomExcept (JStr ''freq-446.00'') ''C'') (UserJoined ''C'') [''A'', ''B''])]"
  by code_simp

lemma count_list_distinct: "distinct xs \<Longrightarrow> x \<in> set xs \<Longrightarrow> count_list xs x = 1"
  by (induction xs) auto

lemma userChannels_of_has_connection:
  "has_connection st s \<Longrightarrow> \<exists>cs. map_of (userChannels st) s = Some cs \<and> userChannels_of st s = cs"
proof -
  assume "has_connection st s"
  then have "s \<in> fst ` set (userChannels st)" by (simp add: has_connection_def)
  from key_has_value[OF this] show ?thesis by (auto simp: userChannels_of_def)
qed

lemma join_member_again:
  assumes "c \<noteq> []" and "c \<in> set (userChannels_of st s)"
  shows "joinChannel st s (JStr c) =
           (st, [Emit (ToSocket s) (JoinConfirmation c True None) [s],
                 Emit (ToSocket s) (ActiveUsers (room_members (rooms st) c)) [s]], [])"
  using assms by (simp add: joinChannel_def socket_emit_def)

lemma join_makes_member:
  assumes "has_connection st s" and "c \<noteq> []"
  shows "c \<in> set (userChannels_of (fst (joinChannel st s (JStr c))) s)"
proof (cases "c \<in> set (userChannels_of st s)")
  case True
  then show ?thesis using assms(2) by (simp add: join_member_again)
next
  case False
  from userChannels_of_has_connection[OF assms(1)] obtain cs
    where "map_of (userChannels st) s = Some cs" by blast
  then show ?thesis
    using False assms(2)
    by (simp add: joinChannel_def Let_def userChannels_of_def map_of_map_entry set_add_props)
qed

lemma join_repeat_member:
  assumes "c \<noteq> []" and "c \<in> set (userChannels_of st s)"
  shows "join_repeat n st s (JStr c) =
           (st, concat (replicate n
                  [Emit (ToSocket s) (JoinConfirmation c True None) [s],
                   Emit (ToSocket s) (ActiveUsers (room_members (rooms st) c)) [s]]), [])"
  by (induction n) (simp_all add: join_member_again[OF assms])

lemma count_confirmations:
  "length (filter (\<lambda>e. e = Emit (ToSocket s) (JoinConfirmation c True None) [s])
     (concat (replicate n
        [Emit (ToSocket s) (JoinConfirmation c True None) [s],
         Emit (ToSocket s) (ActiveUsers us) [s]]))) = n"
  by (induction n) simp_all

lemma join_first_outputs:
  assumes "c \<noteq> []"
  shows "length (filter (\<lambda>e. e = Emit (ToSocket s) (JoinConfirmation c True None) [s])
           (fst (snd (joinChannel st s (JStr c))))) = 1"
  using assms by (simp add: joinChannel_def Let_def socket_emit_def)

lemma join_repeat_Suc:
  "join_repeat (Suc n) st s v =
     (fst (join_repeat n (fst (joinChannel st s v)) s v),
      fst (snd (joinChannel st s v)) @ fst (snd (join_repeat n (fst (joinChannel st s v)) s v)),
      snd (snd (joinChannel st s v)) @ snd (snd (join_repeat n (fst (joinChannel st s v)) s v)))"
  by (simp split: prod.splits)

text \<open>
  Claim C2. Join is idempotent. When a connected socket sends the same join request
  \<open>n + 1\<close> times for a valid channel name, the state after all of them is the state
  after the first; in it the socket occurs exactly once in the channel's member Set and
  the channel exactly once in the socket's channel Set; \<open>n + 1\<close> success confirmations
  have been sent; and a further join request in that state (the socket is a member) sends
  the confirmation and the current roster, schedules nothing and leaves the state as it is.
\<close>
theorem join_idempotent:
  assumes "well_formed st" and "has_connection st s" and "c \<noteq> []"
  shows "fst (join_repeat (Suc n) st s (JStr c)) = fst (joinChannel st s (JStr c)) \<and>
         count_list (room_members (rooms (fst (joinChannel st s (JStr c)))) c) s = 1 \<and>
         count_list (userChannels_of (fst (joinChannel st s (JStr c))) s) c = 1 \<and>
         length (filter (\<lambda>e. e = Emit (ToSocket s) (JoinConfirmation c True None) [s])
                   (fst (snd (join_repeat (Suc n) st s (JStr c))))) = Suc n \<and>
         joinChannel (fst (joinChannel st s (JStr c))) s (JStr c) =
           (fst (joinChannel st s (JStr c)),
            [Emit (ToSocket s) (JoinConfirmation c True None) [s],
             Emit (ToSocket s)
               (ActiveUsers (room_members (rooms (fst (joinChannel st s (JStr c)))) c)) [s]],
            [])"
proof -
  let ?st1 = "fst (joinChannel st s (JStr c))"
  have wf1: "well_formed ?st1" using assms(1) by (rule wf_joinChannel)
  have mem: "c \<in> set (userChannels_of ?st1 s)" using assms(2,3) by (rule join_makes_member)
  have rep: "join_repeat n ?st1 s (JStr c) =
           (?st1, concat (replicate n
                  [Emit (ToSocket s) (JoinConfirmation c True None) [s],
                   Emit (ToSocket s) (ActiveUsers (room_members (rooms ?st1) c)) [s]]), [])"
    using assms(3) mem by (rule join_repeat_member)
  have a: "fst (join_repeat (Suc n) st s (JStr c)) = ?st1"
    by (simp add: join_repeat_Suc rep del: join_repeat.simps)
  have b: "count_list (room_members (rooms ?st1) c) s = 1"
    using member_facts(2)[OF wf1 mem] distinct_room_members[of "rooms ?st1" c] wf1
    by (simp add: count_list_distinct well_formed_def)
  have c: "count_list (userChannels_of ?st1 s) c = 1"
    using mem distinct_userChannels[OF wf1, of s] by (simp add: count_list_distinct)
  have d: "length (filter (\<lambda>e. e = Emit (ToSocket s) (JoinConfirmation c True None) [s])
                   (fst (snd (join_repeat (Suc n) st s (JStr c))))) = Suc n"
    using join_first_outputs[OF assms(3), of s st]
    by (simp add: join_repeat_Suc rep count_confirmations del: join_repeat.simps)
  have e: "joinChannel ?st1 s (JStr c) =
           (?st1, [Emit (ToSocket s) (JoinConfirmation c True None) [s],
                   Emit (ToSocket s) (ActiveUsers (room_members (rooms ?st1) c)) [s]], [])"
    using assms(3) mem by (rule join_member_again)
  from a b c d e show ?thesis by simp
qed

theorem join_idempotent_witness:
  "well_formed two_in_channel \<and> has_connection two_in_channel ''C'' \<and> ''freq-446.00'' \<noteq> [] \<and>
   fst (join_repeat (Suc 2) two_in_channel ''C'' (JStr ''freq-446.00''))
     = fst (joinChannel two_in_channel ''C'' (JStr ''freq-446.00'')) \<and>
   room_members (rooms (fst (joinChannel two_in_channel ''C'' (JStr ''freq-446.00''))))
     ''freq-446.00'' = [''A'', ''B'', ''C''] \<and>
   count_list (room_members
     (rooms (fst (joinChannel two_in_channel ''C'' (JStr ''freq-446.00'')))) ''freq-446.00'') ''C''
     = 1 \<and>
   length (filter
     (\<lambda>e. e = Emit (ToSocket ''C'') (JoinConfirmation ''freq-446.00'' True None) [''C''])
     (fst (snd (join_repeat (Suc 2) two_in_channel ''C'' (JStr ''freq-446.00''))))) = Suc 2"
proof -
  have h3: "''freq-446.00'' \<noteq> []" by simp
  have r: "room_members (rooms (fst (joinChannel two_in_channel ''C'' (JStr ''freq-446.00''))))
     ''freq-446.00'' = [''A'', ''B'', ''C'']"
    by code_simp
  from join_idempotent[OF wf_two_in_channel has_connection_two_in_channel h3, of 2]
       wf_two_in_channel has_connection_two_in_channel h3 r
  show ?thesis by simp
qed

subsection \<open>Who receives a broadcast\<close>

text \<open>
  Claim C3. A \<^verbatim>\<open>pttStatus\<close> message from a member of channel \<open>c\<close> produces one
  \<^verbatim>\<open>pttStatus\<close> event whose recipients are exactly the members of \<open>c\<close> at that moment,
  the sender among them; nobody outside the channel receives it.
\<close>
theorem ptt_reaches_exactly_the_members:
  assumes "well_formed st" and "c \<in> set (userChannels_of st s)"
    and "get_prop data ''channelId'' = JStr c"
  shows "pttStatus st s data =
           (st, [Emit (ToRoom (JStr c)) (PttStatus s (get_prop data ''status''))
                   (room_members (rooms st) c)], []) \<and>
         s \<in> set (room_members (rooms st) c)"
proof -
  from assms(3) have "truthy data" by (cases data) simp_all
  moreover from member_facts[OF assms(1,2)] have "c \<noteq> []" and "s \<in> set (room_members (rooms st) c)" .
  ultimately show ?thesis
    using assms(2,3) by (simp add: pttStatus_def io_to_emit_def)
qed

theorem ptt_reaches_exactly_the_members_witness:
  "well_formed two_in_channel \<and>
   ''freq-446.00'' \<in> set (userChannels_of two_in_channel ''A'') \<and>
   get_prop (JObj [(''channelId'', JStr ''freq-446.00''), (''status'', JBool True)]) ''channelId''
     = JStr ''freq-446.00'' \<and>
   pttStatus two_in_channel ''A''
     (JObj [(''channelId'', JStr ''freq-446.00''), (''status'', JBool True)])
     = (two_in_channel,
        [Emit (ToRoom (JStr ''freq-446.00'')) (PttStatus ''A'' (JBool True)) [''A'', ''B'']],
        []) \<and>
   ''A'' \<in> set [''A'', ''B'']"
proof -
  have h2: "''freq-446.00'' \<in> set (userChannels_of two_in_channel ''A'')"
    by (simp add: two_in_channel_def userChannels_of_def)
  have h3: "get_prop (JObj [(''channelId'', JStr ''freq-446.00''), (''status'', JBool True)])
              ''channelId'' = JStr ''freq-446.00''"
    by simp
  have r: "room_members (rooms two_in_channel) ''freq-446.00'' = [''A'', ''B'']"
    by (simp add: two_in_channel_def room_members_def)
  from ptt_reaches_exactly_the_members[OF wf_two_in_channel h2 h3] wf_two_in_channel h2 h3
  show ?thesis by (simp add: r)
qed

text \<open>
  Claim C4. In the multi-channel backend, a \<^verbatim>\<open>pttStatus\<close> or \<^verbatim>\<open>audioData\<close> message naming
  a channel that the sending connection has not joined is dropped: no event is emitted,
  nothing is scheduled and the server state is unchanged.
\<close>
theorem non_member_broadcast_rejected:
  assumes "c \<notin> set (userChannels_of st s)" and "get_prop data ''channelId'' = JStr c"
  shows "pttStatus st s data = (st, [], []) \<and> audioData st hs port s data = Inr (st, [], [])"
  using assms by (simp add: pttStatus_def audioData_def)

theorem non_member_broadcast_rejected_witness:
  "''freq-446.00'' \<notin> set (userChannels_of two_in_channel ''C'') \<and>
   get_prop (JObj [(''channelId'', JStr ''freq-446.00''), (''status'', JBool True)]) ''channelId''
     = JStr ''freq-446.00'' \<and>
   pttStatus two_in_channel ''C''
     (JObj [(''channelId'', JStr ''freq-446.00''), (''status'', JBool True)])
     = (two_in_channel, [], []) \<and>
   audioData two_in_channel [] ''8080'' ''C''
     (JObj [(''channelId'', JStr ''freq-446.00''), (''status'', JBool True)])
     = Inr (two_in_channel, [], [])"
proof -
  have h1: "''freq-446.00'' \<notin> set (userChannels_of two_in_channel ''C'')"
    by (simp add: two_in_channel_def userChannels_of_def)
  have h2: "get_prop (JObj [(''channelId'', JStr ''freq-446.00''), (''status'', JBool True)])
              ''channelId'' = JStr ''freq-446.00''"
    by simp
  from non_member_broadcast_rejected[OF h1 h2, of "[]" "''8080''"] h1 h2
  show ?thesis by simp
qed

text \<open>
  Claim C10. In the multi-channel backend, a \<^verbatim>\<open>pttStatus\<close> or \<^verbatim>\<open>audioData\<close> message whose
  payload is absent (\<^verbatim>\<open>undefined\<close> or \<^verbatim>\<open>null\<close>) or has no usable \<^verbatim>\<open>channelId\<close> makes the
  handler return at once: nothing is emitted to any client, nothing is scheduled, and the
  whole server state (rooms, channel Sets, tracked uploads, directory) is unchanged.
\<close>
theorem invalid_payload_ignored:
  assumes "nullish data \<or> \<not> truthy (get_prop data ''channelId'')"
  shows "pttStatus st s data = (st, [], []) \<and> audioData st hs port s data = Inr (st, [], [])"
  using assms by (cases data) (auto simp: pttStatus_def audioData_def)

theorem invalid_payload_ignored_witness:
  "(nullish JUndefined \<or> \<not> truthy (get_prop JUndefined ''channelId'')) \<and>
   pttStatus two_in_channel ''A'' JUndefined = (two_in_channel, [], []) \<and>
   audioData two_in_channel [] ''8080'' ''A'' JUndefined = Inr (two_in_channel, [], []) \<and>
   (nullish (JObj [(''status'', JBool True)]) \<or>
      \<not> truthy (get_prop (JObj [(''status'', JBool True)]) ''channelId'')) \<and>
   pttStatus two_in_channel ''A'' (JObj [(''status'', JBool True)]) = (two_in_channel, [], []) \<and>
   audioData two_in_channel [] ''8080'' ''A'' (JObj [(''status'', JBool True)])
     = Inr (two_in_channel, [], [])"
  using invalid_payload_ignored[of JUndefined two_in_channel "''A''" "[]" "''8080''"]
        invalid_payload_ignored[of "JObj [(''status'', JBool True)]" two_in_channel "''A''" "[]" "''8080''"]
  by simp

subsection \<open>Leaving and disconnecting\<close>

lemma disconnect_outputs:
  "snd (disconnect st s) =
     (map (\<lambda>c. Emit (ToRoom (JStr c)) (UserLeft s) (removeAll s (room_members (rooms st) c)))
        (userChannels_of st s), [])"
  by (simp add: disconnect_def Let_def io_to_emit_def room_members_delAll)

lemma disconnect_rooms:
  "room_members (rooms (fst (disconnect st s))) c = removeAll s (room_members (rooms st) c)"
  by (simp add: disconnect_def Let_def room_members_delAll)

lemma disconnect_channels: "userChannels_of (fst (disconnect st s)) s = []"
  by (simp add: disconnect_def Let_def userChannels_of_def map_of_map_entry split: option.splits)

text \<open>
  Claim C8. When a connection whose channel Set holds N channels disconnects, the
  handler emits exactly N \<^verbatim>\<open>userLeft\<close> notices, one addressed to each of those channels
  in turn and reaching the members that remain there; afterwards the connection is in
  no room at all and its channel Set is empty.
\<close>
theorem disconnect_notifies_each_channel:
  assumes "well_formed st"
  shows "snd (disconnect st s) =
           (map (\<lambda>c. Emit (ToRoom (JStr c)) (UserLeft s)
                        (removeAll s (room_members (rooms st) c)))
              (userChannels_of st s), []) \<and>
         length (fst (snd (disconnect st s))) = card (set (userChannels_of st s)) \<and>
         (\<forall>c. s \<notin> set (room_members (rooms (fst (disconnect st s))) c)) \<and>
         userChannels_of (fst (disconnect st s)) s = []"
  using distinct_userChannels[OF assms, of s]
  by (simp add: disconnect_outputs disconnect_rooms disconnect_channels distinct_card)

theorem disconnect_notifies_each_channel_witness:
  "well_formed two_channels \<and>
   userChannels_of two_channels ''A'' = [''freq-446.00'', ''freq-446.50''] \<and>
   snd (disconnect two_channels ''A'') =
     ([Emit (ToRoom (JStr ''freq-446.00'')) (UserLeft ''A'') [''B''],
       Emit (ToRoom (JStr ''freq-446.50'')) (UserLeft ''A'') []], []) \<and>
   length (fst (snd (disconnect two_channels ''A''))) = 2 \<and>
   (\<forall>c. ''A'' \<notin> set (room_members (rooms (fst (disconnect two_channels ''A''))) c)) \<and>
   userChannels_of (fst (disconnect two_channels ''A'')) ''A'' = []"
proof -
  have u: "userChannels_of two_channels ''A'' = [''freq-446.00'', ''freq-446.50'']"
    by code_simp
  have r: "room_members (rooms two_channels) ''freq-446.00'' = [''A'', ''B'']"
          "room_members (rooms two_channels) ''freq-446.50'' = [''A'']"
    by code_simp+
  from disconnect_notifies_each_channel[OF wf_two_channels, of "''A''"] wf_two_channels u r
  show ?thesis by simp
qed

lemma map_entry_id:
  "(\<And>v. map_of al k = Some v \<Longrightarrow> f v = v) \<Longrightarrow> AList.map_entry k f al = al"
  by (induction al) (auto split: if_splits)

lemma adapter_del_absent:
  assumes "rooms_ok rs" and "s \<notin> set (room_members rs c)"
  shows "adapter_del s c rs = rs"
proof (cases "map_of rs c")
  case None
  then show ?thesis by (simp add: adapter_del_def)
next
  case (Some ms)
  with assms(2) have "removeAll s ms = ms" by (simp add: room_members_def)
  moreover from rooms_okD[OF assms(1) Some] have "ms \<noteq> []" by simp
  ultimately show ?thesis using Some by (simp add: adapter_del_def update_triv)
qed

lemma leave_outputs:
  "snd (leaveChannel st s (JStr c)) =
     ([Emit (ToRoom (JStr c)) (UserLeft s) (removeAll s (room_members (rooms st) c))], [])"
  by (simp add: leaveChannel_def Let_def io_to_emit_def room_members_del)

lemma leave_rooms:
  "rooms (fst (leaveChannel st s (JStr c))) = adapter_del s c (rooms st)"
  by (simp add: leaveChannel_def Let_def)

lemma leave_channels:
  "userChannels_of (fst (leaveChannel st s (JStr c))) s = removeAll c (userChannels_of st s)"
  by (simp add: leaveChannel_def Let_def userChannels_of_def map_of_map_entry split: option.splits)

lemma leave_non_member_state:
  assumes "well_formed st" and "s \<notin> set (room_members (rooms st) c)"
  shows "fst (leaveChannel st s (JStr c)) = st"
proof -
  have r: "adapter_del s c (rooms st) = rooms st"
    using assms by (simp add: adapter_del_absent well_formed_def)
  have "c \<notin> set (userChannels_of st s)"
    using member_facts(2)[OF assms(1), of c s] assms(2) by blast
  then have "AList.map_entry s (removeAll c) (userChannels st) = userChannels st"
    by (intro map_entry_id) (simp add: userChannels_of_def)
  with r show ?thesis
    by (simp add: leaveChannel_def Let_def set_delete_str)
qed

text \<open>
  Claim C9, as the code has it. \<^verbatim>\<open>leaveChannel\<close> always takes the connection out of the
  room and out of its channel Set and always emits one \<^verbatim>\<open>userLeft\<close> notice to the members
  that remain in the named channel. The room's record disappears when its last member
  leaves. When the connection was not in the channel, the state does not change, and the
  notice is sent to the channel's members all the same.
\<close>
theorem leave_unconditional:
  assumes "well_formed st"
  shows "snd (leaveChannel st s (JStr c)) =
           ([Emit (ToRoom (JStr c)) (UserLeft s) (removeAll s (room_members (rooms st) c))], []) \<and>
         room_members (rooms (fst (leaveChannel st s (JStr c)))) c
           = removeAll s (room_members (rooms st) c) \<and>
         userChannels_of (fst (leaveChannel st s (JStr c))) s
           = removeAll c (userChannels_of st s) \<and>
         (removeAll s (room_members (rooms st) c) = [] \<longrightarrow>
            map_of (rooms (fst (leaveChannel st s (JStr c)))) c = None) \<and>
         (s \<notin> set (room_members (rooms st) c) \<longrightarrow> fst (leaveChannel st s (JStr c)) = st)"
proof -
  have "removeAll s (room_members (rooms st) c) = [] \<Longrightarrow>
          map_of (rooms (fst (leaveChannel st s (JStr c)))) c = None"
    by (cases "map_of (rooms st) c")
       (simp_all add: leave_rooms map_of_adapter_del room_members_def)
  then show ?thesis
    using leave_non_member_state[OF assms, of s c]
    by (simp add: leave_outputs leave_channels leave_rooms room_members_del)
qed

theorem leave_unconditional_witness:
  "well_formed two_channels \<and>
   snd (leaveChannel two_channels ''A'' (JStr ''freq-446.50'')) =
     ([Emit (ToRoom (JStr ''freq-446.50'')) (UserLeft ''A'') []], []) \<and>
   removeAll ''A'' (room_members (rooms two_channels) ''freq-446.50'') = [] \<and>
   map_of (rooms (fst (leaveChannel two_channels ''A'' (JStr ''freq-446.50'')))) ''freq-446.50''
     = None \<and>
   userChannels_of (fst (leaveChannel two_channels ''A'' (JStr ''freq-446.50''))) ''A''
     = [''freq-446.00''] \<and>
   well_formed two_in_channel \<and>
   ''C'' \<notin> set (room_members (rooms two_in_channel) ''freq-446.00'') \<and>
   fst (leaveChannel two_in_channel ''C'' (JStr ''freq-446.00'')) = two_in_channel \<and>
   snd (leaveChannel two_in_channel ''C'' (JStr ''freq-446.00'')) =
     ([Emit (ToRoom (JStr ''freq-446.00'')) (UserLeft ''C'') [''A'', ''B'']], [])"
proof -
  have u: "userChannels_of two_channels ''A'' = [''freq-446.00'', ''freq-446.50'']"
    by code_simp
  have r1: "room_members (rooms two_channels) ''freq-446.50'' = [''A'']"
    by code_simp
  have r2: "room_members (rooms two_in_channel) ''freq-446.00'' = [''A'', ''B'']"
    by code_simp
  from leave_unconditional[OF wf_two_channels, of "''A''" "''freq-446.50''"]
       leave_unconditional[OF wf_two_in_channel, of "''C''" "''freq-446.00''"]
       wf_two_channels wf_two_in_channel u r1 r2
  show ?thesis by simp
qed

text \<open>
  Claim C9 as stated says that leaving a channel one is not in delivers no \<^verbatim>\<open>userLeft\<close>
  notice. Client C, connected but not tuned to the frequency, leaves it: A and B both
  receive \<^verbatim>\<open>userLeft\<close> for C.
\<close>
theorem leave_non_member_counterexample:
  "''freq-446.00'' \<notin> set (userChannels_of two_in_channel ''C'') \<and>
   ''C'' \<notin> set (room_members (rooms two_in_channel) ''freq-446.00'') \<and>
   leaveChannel two_in_channel ''C'' (JStr ''freq-446.00'') =
     (two_in_channel,
      [Emit (ToRoom (JStr ''freq-446.00'')) (UserLeft ''C'') [''A'', ''B'']],
      [])"
  by code_simp

section \<open>Claims about push-to-talk and audio relay\<close>

lemma members_updateActivity: "members (updateActivity st s now) v = members st v"
  by (cases v) (simp_all add: updateActivity_def)

lemma pttStatus_at_most_once:
  "length (fst (snd (pttStatus st s data))) \<le> 1 \<and> snd (snd (pttStatus st s data)) = []"
  by (simp add: pttStatus_def)

text \<open>
  Claim C6, as the code has it. In the single-channel backend a \<^verbatim>\<open>pttStatus\<close> message with
  \<^verbatim>\<open>status === false\<close> is broadcast to the channel twice: once before the handler returns
  (followed by a \<^verbatim>\<open>pttAck\<close> to the sender) and once from a callback 200 ms later, that
  copy carrying a timestamp. Any other status is broadcast once and nothing is scheduled.
  The multi-channel backend never schedules anything and emits at most one event for a
  \<^verbatim>\<open>pttStatus\<close> message, whatever the status.
\<close>
theorem ptt_release_sent_twice_single_channel:
  assumes "\<not> nullish payload"
  shows "(get_prop payload ''status'' = JBool False \<longrightarrow>
            (\<exists>r. pttStatus_single st now s payload = Inr r \<and>
                 fst r = updateActivity st s now \<and>
                 snd (snd r) = [(200, PttResend s (get_prop payload ''channelId'') (JBool False)
                                        (get_prop payload ''message''))] \<and>
                 (\<forall>later.
                    trace_of now later r =
                      [(now, Emit (ToRoom (get_prop payload ''channelId''))
                               (PttStatusMsg s (JBool False) (get_prop payload ''message'') None)
                               (members st (get_prop payload ''channelId''))),
                       (now, Emit (ToSocket s)
                               (PttAck (get_prop payload ''channelId'') (JBool False) True
                                  (Some now) None)
                               [s]),
                       (now + 200, Emit (ToRoom (get_prop payload ''channelId''))
                               (PttStatusMsg s (JBool False) (get_prop payload ''message'')
                                  (Some (now + 200)))
                               (members (later (now + 200)) (get_prop payload ''channelId'')))]))) \<and>
         (get_prop payload ''status'' \<noteq> JBool False \<longrightarrow>
            pttStatus_single st now s payload =
              Inr (updateActivity st s now,
                   [Emit (ToRoom (get_prop payload ''channelId''))
                      (PttStatusMsg s (get_prop payload ''status'') (get_prop payload ''message'') None)
                      (members st (get_prop payload ''channelId''))],
                   [])) \<and>
         length (fst (snd (pttStatus st s data))) \<le> 1 \<and>
         snd (snd (pttStatus st s data)) = []"
  using assms pttStatus_at_most_once[of st s data]
  by (simp add: pttStatus_single_def Let_def io_to_emit_def socket_emit_def members_updateActivity
        trace_of_def)

theorem ptt_release_sent_twice_single_channel_witness:
  "\<not> nullish (JObj [(''channelId'', JStr ''freq-446.00''), (''status'', JBool False)]) \<and>
   (\<exists>r. pttStatus_single two_in_channel 1000 ''A''
            (JObj [(''channelId'', JStr ''freq-446.00''), (''status'', JBool False)]) = Inr r \<and>
        (\<forall>later.
           trace_of 1000 later r =
             [(1000, Emit (ToRoom (JStr ''freq-446.00''))
                       (PttStatusMsg ''A'' (JBool False) JUndefined None) [''A'', ''B'']),
              (1000, Emit (ToSocket ''A'')
                       (PttAck (JStr ''freq-446.00'') (JBool False) True (Some 1000) None) [''A'']),
              (1200, Emit (ToRoom (JStr ''freq-446.00''))
                       (PttStatusMsg ''A'' (JBool False) JUndefined (Some 1200))
                       (room_members (rooms (later 1200)) ''freq-446.00''))])) \<and>
   \<not> nullish (JObj [(''channelId'', JStr ''freq-446.00''), (''status'', JBool True)]) \<and>
   pttStatus_single two_in_channel 1000 ''A''
       (JObj [(''channelId'', JStr ''freq-446.00''), (''status'', JBool True)]) =
     Inr (updateActivity two_in_channel ''A'' 1000,
          [Emit (ToRoom (JStr ''freq-446.00''))
             (PttStatusMsg ''A'' (JBool True) JUndefined None) [''A'', ''B'']],
          [])"
proof -
  have h1: "\<not> nullish (JObj [(''channelId'', JStr ''freq-446.00''), (''status'', JBool False)])"
    and h2: "\<not> nullish (JObj [(''channelId'', JStr ''freq-446.00''), (''status'', JBool True)])"
    by simp_all
  have r: "room_members (rooms two_in_channel) ''freq-446.00'' = [''A'', ''B'']"
    by code_simp
  from ptt_release_sent_twice_single_channel[OF h1,
         where st=two_in_channel and now=1000 and s="''A''" and data=JUndefined] r
  obtain res where 1: "pttStatus_single two_in_channel 1000 ''A''
            (JObj [(''channelId'', JStr ''freq-446.00''), (''status'', JBool False)]) = Inr res"
    and 2: "\<And>later. trace_of 1000 later res =
             [(1000, Emit (ToRoom (JStr ''freq-446.00''))
                       (PttStatusMsg ''A'' (JBool False) JUndefined None) [''A'', ''B'']),
              (1000, Emit (ToSocket ''A'')
                       (PttAck (JStr ''freq-446.00'') (JBool False) True (Some 1000) None) [''A'']),
              (1200, Emit (ToRoom (JStr ''freq-446.00''))
                       (PttStatusMsg ''A'' (JBool False) JUndefined (Some 1200))
                       (room_members (rooms (later 1200)) ''freq-446.00''))]"
    by auto
  from ptt_release_sent_twice_single_channel[OF h2,
         where st=two_in_channel and now=1000 and s="''A''" and data=JUndefined] r
  have 3: "pttStatus_single two_in_channel 1000 ''A''
       (JObj [(''channelId'', JStr ''freq-446.00''), (''status'', JBool True)]) =
     Inr (updateActivity two_in_channel ''A'' 1000,
          [Emit (ToRoom (JStr ''freq-446.00''))
             (PttStatusMsg ''A'' (JBool True) JUndefined None) [''A'', ''B'']],
          [])"
    by simp
  from 1 2 3 h1 h2 show ?thesis by blast
qed

text \<open>A releases push-to-talk at time 1000 while A and B stay tuned: the whole trace.\<close>
lemma release_trace_single_channel:
  "map_sum id (trace_of 1000 (\<lambda>u. two_in_channel))
     (pttStatus_single two_in_channel 1000 ''A''
        (JObj [(''channelId'', JStr ''freq-446.00''), (''status'', JBool False)])) =
   Inr [(1000, Emit (ToRoom (JStr ''freq-446.00''))
                 (PttStatusMsg ''A'' (JBool False) JUndefined None) [''A'', ''B'']),
        (1000, Emit (ToSocket ''A'')
                 (PttAck (JStr ''freq-446.00'') (JBool False) True (Some 1000) None) [''A'']),
        (1200, Emit (ToRoom (JStr ''freq-446.00''))
                 (PttStatusMsg ''A'' (JBool False) JUndefined (Some 1200)) [''A'', ''B''])]"
  by code_simp

text \<open>
  The single-channel backend does not test membership: whoever sends the message, the
  members of the named channel receive the broadcast.
\<close>
lemma single_channel_broadcast_unchecked:
  assumes "\<not> nullish payload"
  shows "\<exists>rest timers.
           pttStatus_single st now s payload =
             Inr (updateActivity st s now,
                  Emit (ToRoom (get_prop payload ''channelId''))
                    (PttStatusMsg s (get_prop payload ''status'') (get_prop payload ''message'') None)
                    (members st (get_prop payload ''channelId'')) # rest,
                  timers)"
  using assms
  by (simp add: pttStatus_single_def Let_def io_to_emit_def members_updateActivity)

text \<open>
  Claim C6 as stated has every released push-to-talk sent twice. In the multi-channel
  backend member A releases: one event goes to the channel, and no second send is
  scheduled.
\<close>
theorem ptt_release_once_counterexample:
  "pttStatus two_in_channel ''A''
     (JObj [(''channelId'', JStr ''freq-446.00''), (''status'', JBool False)]) =
   (two_in_channel,
    [Emit (ToRoom (JStr ''freq-446.00'')) (PttStatus ''A'' (JBool False)) [''A'', ''B'']],
    [])"
  by code_simp

lemma audioData_relay:
  assumes "get_prop data ''channelId'' = JStr c"
    and "c \<noteq> []"
    and "c \<in> set (userChannels_of st s)"
    and "get_prop (get_prop data ''data'') ''uri'' = JStr uri"
  shows "audioData st hs port s data =
           Inr (st,
                [Emit (ToRoomExcept (JStr c) s)
                   (AudioData s
                      (if take (length ''/uploads/'') uri = ''/uploads/''
                       then set_prop (get_prop data ''data'') ''uri'' (JStr (full_url hs port uri))
                       else get_prop data ''data''))
                   (filter (\<lambda>r. r \<notin> set (room_members (rooms st) s))
                      (room_members (rooms st) c))],
                [])"
proof -
  from assms(1) have td: "truthy data" by (cases data) simp_all
  from assms(4) have tdd: "truthy (get_prop data ''data'')"
    by (cases "get_prop data ''data''") simp_all
  show ?thesis
    using assms td tdd
    by (simp add: audioData_def Let_def socket_to_emit_def)
qed

text \<open>
  Whatever the message, the multi-channel \<^verbatim>\<open>audioData\<close> handler leaves the state as it
  is, schedules nothing and emits no event other than one \<^verbatim>\<open>audioData\<close>.
\<close>
lemma audioData_schedules_nothing:
  assumes "audioData st hs port s data = Inr res"
  shows "fst res = st \<and> snd (snd res) = [] \<and>
         (fst (snd res) = [] \<or>
          (\<exists>d. fst (snd res) =
             [Emit (ToRoomExcept (get_prop data ''channelId'') s) (AudioData s d)
                (filter (\<lambda>r. r \<notin> set (room_members (rooms st) s))
                   (members st (get_prop data ''channelId'')))]))"
  using assms
  by (auto simp add: audioData_def Let_def socket_to_emit_def split: jsval.splits if_splits)

text \<open>
  Claim C5, as the code has it. In the single-channel backend an \<^verbatim>\<open>audioData\<close> message
  whose data carries a uri first makes the server broadcast \<^verbatim>\<open>pttStatus\<close> with status
  false for the sender to the channel, before the handler returns, and schedules one
  callback 200 ms later that broadcasts the \<^verbatim>\<open>audioData\<close> event to the members the
  channel then has and then sends \<^verbatim>\<open>audioAck\<close> to the sender, reaching it if it is still
  connected. In the multi-channel backend an \<^verbatim>\<open>audioData\<close> message of a member of the
  channel whose data carries a string uri is relayed at once, with no \<^verbatim>\<open>pttStatus\<close>
  before it and nothing scheduled: the one event is the \<^verbatim>\<open>audioData\<close> itself, with an
  upload path made a full URL, to the members of the channel that are not in the room
  named by the sender's id; when the sender is alone in that room, these are exactly the
  other members of the channel.
\<close>
theorem audio_after_ptt_off_single_channel:
  assumes "\<not> nullish payload"
    and "truthy (get_prop payload ''data'')"
    and "truthy (get_prop (get_prop payload ''data'') ''uri'')"
  shows "(\<exists>r. audioData_single st now s payload = Inr r \<and>
              fst r = updateActivity st s now \<and>
              snd (snd r) =
                [(200, AudioRelay s (get_prop payload ''channelId'') (get_prop payload ''data''))] \<and>
              (\<forall>later.
                 trace_of now later r =
                   [(now, Emit (ToRoom (get_prop payload ''channelId''))
                            (PttStatus s (JBool False))
                            (members st (get_prop payload ''channelId''))),
                    (now + 200, Emit (ToRoom (get_prop payload ''channelId''))
                            (AudioDataAt s (get_prop payload ''data'') (now + 200))
                            (members (later (now + 200)) (get_prop payload ''channelId''))),
                    (now + 200, Emit (ToSocket s)
                            (AudioAck True (get_prop payload ''channelId'') (Some (now + 200)) None)
                            (if connected (later (now + 200)) s then [s] else []))])) \<and>
         (get_prop data ''channelId'' = JStr c \<and> c \<noteq> [] \<and>
          c \<in> set (userChannels_of st' s') \<and>
          get_prop (get_prop data ''data'') ''uri'' = JStr uri \<longrightarrow>
            audioData st' hs port s' data =
              Inr (st',
                   [Emit (ToRoomExcept (JStr c) s')
                      (AudioData s'
                         (if take (length ''/uploads/'') uri = ''/uploads/''
                          then set_prop (get_prop data ''data'') ''uri''
                                 (JStr (full_url hs port uri))
                          else get_prop data ''data''))
                      (filter (\<lambda>r. r \<notin> set (room_members (rooms st') s'))
                         (room_members (rooms st') c))],
                   []) \<and>
            (room_members (rooms st') s' = [s'] \<longrightarrow>
               filter (\<lambda>r. r \<notin> set (room_members (rooms st') s')) (room_members (rooms st') c) =
               filter (\<lambda>r. r \<noteq> s') (room_members (rooms st') c)))"
proof -
  have single: "\<exists>r. audioData_single st now s payload = Inr r \<and>
              fst r = updateActivity st s now \<and>
              snd (snd r) =
                [(200, AudioRelay s (get_prop payload ''channelId'') (get_prop payload ''data''))] \<and>
              (\<forall>later.
                 trace_of now later r =
                   [(now, Emit (ToRoom (get_prop payload ''channelId''))
                            (PttStatus s (JBool False))
                            (members st (get_prop payload ''channelId''))),
                    (now + 200, Emit (ToRoom (get_prop payload ''channelId''))
                            (AudioDataAt s (get_prop payload ''data'') (now + 200))
                            (members (later (now + 200)) (get_prop payload ''channelId''))),
                    (now + 200, Emit (ToSocket s)
                            (AudioAck True (get_prop payload ''channelId'') (Some (now + 200)) None)
                            (if connected (later (now + 200)) s then [s] else []))])"
    using assms
    by (simp add: audioData_single_def Let_def io_to_emit_def socket_emit_later_def
          members_updateActivity trace_of_def)
  have multi: "get_prop data ''channelId'' = JStr c \<and> c \<noteq> [] \<and>
          c \<in> set (userChannels_of st' s') \<and>
          get_prop (get_prop data ''data'') ''uri'' = JStr uri \<longrightarrow>
            audioData st' hs port s' data =
              Inr (st',
                   [Emit (ToRoomExcept (JStr c) s')
                      (AudioData s'
                         (if take (length ''/uploads/'') uri = ''/uploads/''
                          then set_prop (get_prop data ''data'') ''uri''
                                 (JStr (full_url hs port uri))
                          else get_prop data ''data''))
                      (filter (\<lambda>r. r \<notin> set (room_members (rooms st') s'))
                         (room_members (rooms st') c))],
                   []) \<and>
            (room_members (rooms st') s' = [s'] \<longrightarrow>
               filter (\<lambda>r. r \<notin> set (room_members (rooms st') s')) (room_members (rooms st') c) =
               filter (\<lambda>r. r \<noteq> s') (room_members (rooms st') c))"
    using audioData_relay[of data c st' s' uri hs port] by simp
  from single multi show ?thesis by (rule conjI)
qed

theorem audio_after_ptt_off_single_channel_witness:
  "\<not> nullish (JObj [(''channelId'', JStr ''freq-446.00''),
                     (''data'', JObj [(''uri'', JStr ''/uploads/1-2.m4a'')])]) \<and>
   truthy (get_prop (JObj [(''channelId'', JStr ''freq-446.00''),
                           (''data'', JObj [(''uri'', JStr ''/uploads/1-2.m4a'')])]) ''data'') \<and>
   truthy (get_prop (get_prop (JObj [(''channelId'', JStr ''freq-446.00''),
                           (''data'', JObj [(''uri'', JStr ''/uploads/1-2.m4a'')])]) ''data'')
             ''uri'') \<and>
   (\<exists>r. audioData_single two_in_channel 1000 ''A''
            (JObj [(''channelId'', JStr ''freq-446.00''),
                   (''data'', JObj [(''uri'', JStr ''/uploads/1-2.m4a'')])]) = Inr r \<and>
        (\<forall>later.
           trace_of 1000 later r =
             [(1000, Emit (ToRoom (JStr ''freq-446.00'')) (PttStatus ''A'' (JBool False))
                       [''A'', ''B'']),
              (1200, Emit (ToRoom (JStr ''freq-446.00''))
                       (AudioDataAt ''A'' (JObj [(''uri'', JStr ''/uploads/1-2.m4a'')]) 1200)
                       (room_members (rooms (later 1200)) ''freq-446.00'')),
              (1200, Emit (ToSocket ''A'') (AudioAck True (JStr ''freq-446.00'') (Some 1200) None)
                       (if connected (later 1200) ''A'' then [''A''] else []))])) \<and>
   get_prop (JObj [(''channelId'', JStr ''freq-446.00''),
                   (''data'', JObj [(''uri'', JStr ''/uploads/1-2.m4a'')])]) ''channelId''
     = JStr ''freq-446.00'' \<and>
   ''freq-446.00'' \<in> set (userChannels_of two_in_channel ''A'') \<and>
   get_prop (get_prop (JObj [(''channelId'', JStr ''freq-446.00''),
                   (''data'', JObj [(''uri'', JStr ''/uploads/1-2.m4a'')])]) ''data'') ''uri''
     = JStr ''/uploads/1-2.m4a'' \<and>
   room_members (rooms two_in_channel) ''A'' = [''A''] \<and>
   audioData two_in_channel [] ''8080'' ''A''
     (JObj [(''channelId'', JStr ''freq-446.00''),
            (''data'', JObj [(''uri'', JStr ''/uploads/1-2.m4a'')])]) =
   Inr (two_in_channel,
        [Emit (ToRoomExcept (JStr ''freq-446.00'') ''A'')
           (AudioData ''A'' (JObj [(''uri'', JStr ''http://localhost:8080/uploads/1-2.m4a'')]))
           (filter (\<lambda>r. r \<noteq> ''A'') [''A'', ''B''])],
        [])"
proof -
  let ?p = "JObj [(''channelId'', JStr ''freq-446.00''),
                  (''data'', JObj [(''uri'', JStr ''/uploads/1-2.m4a'')])]"
  have h1: "\<not> nullish ?p" by simp
  have h2: "truthy (get_prop ?p ''data'')" by simp
  have h3: "truthy (get_prop (get_prop ?p ''data'') ''uri'')" by simp
  have g1: "get_prop ?p ''channelId'' = JStr ''freq-446.00''" by simp
  have g2: "''freq-446.00'' \<in> set (userChannels_of two_in_channel ''A'')" by code_simp
  have g3: "get_prop (get_prop ?p ''data'') ''uri'' = JStr ''/uploads/1-2.m4a''" by simp
  have g4: "room_members (rooms two_in_channel) ''A'' = [''A'']" by code_simp
  have r: "room_members (rooms two_in_channel) ''freq-446.00'' = [''A'', ''B'']"
    by code_simp
  have u: "full_url [] ''8080'' ''/uploads/1-2.m4a'' = ''http://localhost:8080/uploads/1-2.m4a''"
    by code_simp
  note t = audio_after_ptt_off_single_channel[OF h1 h2 h3,
         where st=two_in_channel and now=1000 and s="''A''" and data="?p"
           and hs="[]" and port="''8080''" and st'=two_in_channel and s'="''A''"
           and c="''freq-446.00''" and uri="''/uploads/1-2.m4a''"]
  from t r
  obtain res where 1: "audioData_single two_in_channel 1000 ''A'' ?p = Inr res"
    and 2: "\<And>later. trace_of 1000 later res =
             [(1000, Emit (ToRoom (JStr ''freq-446.00'')) (PttStatus ''A'' (JBool False))
                       [''A'', ''B'']),
              (1200, Emit (ToRoom (JStr ''freq-446.00''))
                       (AudioDataAt ''A'' (JObj [(''uri'', JStr ''/uploads/1-2.m4a'')]) 1200)
                       (room_members (rooms (later 1200)) ''freq-446.00'')),
              (1200, Emit (ToSocket ''A'') (AudioAck True (JStr ''freq-446.00'') (Some 1200) None)
                       (if connected (later 1200) ''A'' then [''A''] else []))]"
    by auto
  from t g1 g2 g3 g4
  have 3: "audioData two_in_channel [] ''8080'' ''A'' ?p =
     Inr (two_in_channel,
        [Emit (ToRoomExcept (JStr ''freq-446.00'') ''A'')
           (AudioData ''A'' (JObj [(''uri'', JStr ''http://localhost:8080/uploads/1-2.m4a'')]))
           (filter (\<lambda>r. r \<noteq> ''A'') [''A'', ''B''])],
        [])"
    by (simp add: r u)
  from 1 2 3 h1 h2 h3 g1 g2 g3 g4 show ?thesis by blast
qed

text \<open>
  A sender that has left the room named by its own id gets its own audio back, and a
  member that has joined the room named by the sender's id is passed over.
\<close>
lemma audio_relay_own_room:
  "audioData (fst (leaveChannel two_in_channel ''A'' (JStr ''A''))) [] ''8080'' ''A''
     (JObj [(''channelId'', JStr ''freq-446.00''), (''data'', JObj [(''uri'', JStr ''x'')])]) =
   Inr (fst (leaveChannel two_in_channel ''A'' (JStr ''A'')),
        [Emit (ToRoomExcept (JStr ''freq-446.00'') ''A'')
           (AudioData ''A'' (JObj [(''uri'', JStr ''x'')])) [''A'', ''B'']],
        []) \<and>
   audioData (fst (joinChannel two_in_channel ''B'' (JStr ''A''))) [] ''8080'' ''A''
     (JObj [(''channelId'', JStr ''freq-446.00''), (''data'', JObj [(''uri'', JStr ''x'')])]) =
   Inr (fst (joinChannel two_in_channel ''B'' (JStr ''A'')),
        [Emit (ToRoomExcept (JStr ''freq-446.00'') ''A'')
           (AudioData ''A'' (JObj [(''uri'', JStr ''x'')])) []],
        [])"
  by code_simp

text \<open>
  The scenario of the specification on the single-channel backend: A relays an upload at
  time 1000 while A and B stay tuned.
\<close>
lemma relay_trace_single_channel:
  "map_sum id (trace_of 1000 (\<lambda>u. two_in_channel))
     (audioData_single two_in_channel 1000 ''A''
        (JObj [(''channelId'', JStr ''freq-446.00''),
               (''data'', JObj [(''uri'', JStr ''/uploads/1-2.m4a'')])])) =
   Inr [(1000, Emit (ToRoom (JStr ''freq-446.00'')) (PttStatus ''A'' (JBool False))
                 [''A'', ''B'']),
        (1200, Emit (ToRoom (JStr ''freq-446.00''))
                 (AudioDataAt ''A'' (JObj [(''uri'', JStr ''/uploads/1-2.m4a'')]) 1200)
                 [''A'', ''B'']),
        (1200, Emit (ToSocket ''A'') (AudioAck True (JStr ''freq-446.00'') (Some 1200) None)
                 [''A''])]"
  by code_simp

text \<open>
  Claim C5 as stated has a push-to-talk-off event precede every relayed audio reference.
  In the multi-channel backend member A relays an upload: the only event is the
  \<^verbatim>\<open>audioData\<close> itself, sent to B at once; no \<^verbatim>\<open>pttStatus\<close> is emitted and nothing is
  scheduled.
\<close>
theorem audio_without_ptt_off_counterexample:
  "audioData two_in_channel [(''host'', ''relay:8080'')] ''8080'' ''A''
     (JObj [(''channelId'', JStr ''freq-446.00''),
            (''data'', JObj [(''uri'', JStr ''/uploads/1-2.m4a'')])]) =
   Inr (two_in_channel,
        [Emit (ToRoomExcept (JStr ''freq-446.00'') ''A'')
           (AudioData ''A'' (JObj [(''uri'', JStr ''http://relay:8080/uploads/1-2.m4a'')]))
           [''B'']],
        [])"
  by code_simp

section \<open>Claims about the media store\<close>

lemma cleanup_tracked_tracking:
  "map_of (uploadedFiles (cleanup_tracked now es st)) f =
     (if expired_entry now es f then None else map_of (uploadedFiles st) f)"
proof (induction es arbitrary: st f)
  case Nil
  show ?case by simp
next
  case (Cons e es)
  obtain g ts where e: "e = (g, ts)" by (cases e)
  show ?case
    by (simp add: e Cons.IH unlinkSync_def delete_conv')
qed

lemma cleanup_tracked_disk:
  "map_of (disk (cleanup_tracked now es st)) f =
     (if expired_entry now es f then None else map_of (disk st) f)"
proof (induction es arbitrary: st f)
  case Nil
  show ?case by simp
next
  case (Cons e es)
  obtain g ts where e: "e = (g, ts)" by (cases e)
  show ?case
    by (auto simp: e Cons.IH unlinkSync_def existsSync_def delete_conv')
qed

lemma cleanup_tracked_distinct:
  "distinct (map fst (disk st)) \<Longrightarrow> distinct (map fst (disk (cleanup_tracked now es st)))"
proof (induction es arbitrary: st f)
  case Nil
  then show ?case by simp
next
  case (Cons e es)
  obtain g ts where e: "e = (g, ts)" by (cases e)
  show ?case
    using Cons.prems
    by (auto simp: e unlinkSync_def distinct_delete intro!: Cons.IH)
qed

lemma cleanup_tracked_distinct_tracking:
  "distinct (map fst (uploadedFiles st)) \<Longrightarrow>
     distinct (map fst (uploadedFiles (cleanup_tracked now es st)))"
proof (induction es arbitrary: st f)
  case Nil
  then show ?case by simp
next
  case (Cons e es)
  obtain g ts where e: "e = (g, ts)" by (cases e)
  show ?case
    using Cons.prems
    by (auto simp: e unlinkSync_def distinct_delete intro!: Cons.IH)
qed


lemma expired_entry_iff:
  "distinct (map fst es) \<Longrightarrow>
     expired_entry now es f \<longleftrightarrow> (\<exists>ts. map_of es f = Some ts \<and> now - ts > FILE_MAX_AGE_MS)"
proof (induction es)
  case Nil
  show ?case by simp
next
  case (Cons e es)
  obtain g ts where e: "e = (g, ts)" by (cases e)
  from Cons.prems have d: "distinct (map fst es)" and g: "g \<notin> fst ` set es"
    by (simp_all add: e)
  from g have n: "map_of es g = None" by (simp add: map_of_eq_None_iff)
  show ?case
    using Cons.IH[OF d] n by (auto simp: e)
qed

lemma expired_entry_untracked: "map_of es f = None \<Longrightarrow> \<not> expired_entry now es f"
proof (induction es)
  case Nil
  show ?case by simp
next
  case (Cons e es)
  obtain g ts where e: "e = (g, ts)" by (cases e)
  show ?case using Cons by (auto simp: e split: if_splits)
qed

lemma scan_untracked_both:
  assumes "distinct ns" and "set ns \<subseteq> dom (map_of (disk st))"
  shows "map_of (disk (scan_untracked now ns st)) f =
           (if f \<in> set ns \<and> map_of (uploadedFiles st) f = None \<and>
               (\<exists>m. map_of (disk st) f = Some m \<and> now - m > FILE_MAX_AGE_MS)
            then None else map_of (disk st) f) \<and>
         map_of (uploadedFiles (scan_untracked now ns st)) f =
           (if f \<in> set ns \<and> map_of (uploadedFiles st) f = None
            then (case map_of (disk st) f of
                    None \<Rightarrow> None
                  | Some m \<Rightarrow> if now - m > FILE_MAX_AGE_MS then None else Some m)
            else map_of (uploadedFiles st) f)"
  using assms
proof (induction ns arbitrary: st f)
  case Nil
  show ?case by simp
next
  case (Cons nm rest)
  from Cons.prems have d: "distinct rest" and nf: "nm \<notin> set rest"
    and sub: "set rest \<subseteq> dom (map_of (disk st))"
    by simp_all
  from Cons.prems obtain mtime where mt: "map_of (disk st) nm = Some mtime"
    by auto
  show ?case
  proof (cases "map_of (uploadedFiles st) nm \<noteq> None")
    case True
    then show ?thesis
      using Cons.IH[OF d sub, of f] by auto
  next
    case untracked: False
    show ?thesis
    proof (cases "now - mtime > FILE_MAX_AGE_MS")
      case True
      let ?st' = "unlinkSync nm st"
      have sub': "set rest \<subseteq> dom (map_of (disk ?st'))"
        using sub nf by (auto simp: unlinkSync_def delete_conv')
      have step: "scan_untracked now (nm # rest) st = scan_untracked now rest ?st'"
        using untracked mt True by simp
      show ?thesis
        unfolding step
        using Cons.IH[OF d sub', of f] untracked mt True nf
        by (auto simp: unlinkSync_def delete_conv')
    next
      case False
      let ?st' = "st\<lparr>uploadedFiles := AList.update nm mtime (uploadedFiles st)\<rparr>"
      have sub': "set rest \<subseteq> dom (map_of (disk ?st'))"
        using sub by simp
      have step: "scan_untracked now (nm # rest) st = scan_untracked now rest ?st'"
        using untracked mt False by simp
      show ?thesis
        unfolding step
        using Cons.IH[OF d sub', of f] untracked mt False nf
        by (auto simp: update_conv')
    qed
  qed
qed


lemma cleanup_tracked_ok: "store_ok st \<Longrightarrow> store_ok (cleanup_tracked now es st)"
  by (simp add: store_ok_def cleanup_tracked_distinct cleanup_tracked_distinct_tracking)

lemma scan_untracked_ok: "store_ok st \<Longrightarrow> store_ok (scan_untracked now ns st)"
proof (induction ns arbitrary: st)
  case Nil
  then show ?case by simp
next
  case (Cons nm rest)
  have a: "store_ok (unlinkSync nm st)"
    using Cons.prems by (simp add: store_ok_def unlinkSync_def distinct_delete)
  have b: "store_ok (st\<lparr>uploadedFiles := AList.update nm m (uploadedFiles st)\<rparr>)" for m
    using Cons.prems by (simp add: store_ok_def distinct_update)
  show ?case
    using Cons.prems Cons.IH[OF a] Cons.IH[OF b] Cons.IH[OF Cons.prems]
    by (simp split: option.splits)
qed

lemma cleanupOldFiles_ok: "store_ok st \<Longrightarrow> store_ok (cleanupOldFiles now st)"
  by (simp add: cleanupOldFiles_def Let_def cleanup_tracked_ok scan_untracked_ok)

lemma upload_ok: "store_ok st \<Longrightarrow> store_ok (upload f written now st)"
  by (simp add: store_ok_def upload_def distinct_update)

lemma media_step_ok: "store_ok st \<Longrightarrow> store_ok (media_step op st)"
  by (cases op) (simp_all add: cleanupOldFiles_ok upload_ok)

lemma cleanupOldFiles_file:
  assumes "store_ok st"
  shows "map_of (disk (cleanupOldFiles now st)) f =
           (case map_of (uploadedFiles st) f of
              Some ts \<Rightarrow> if now - ts > FILE_MAX_AGE_MS then None else map_of (disk st) f
            | None \<Rightarrow>
                (case map_of (disk st) f of
                   None \<Rightarrow> None
                 | Some m \<Rightarrow> if now - m > FILE_MAX_AGE_MS then None else Some m))"
    and "map_of (uploadedFiles (cleanupOldFiles now st)) f =
           (case map_of (uploadedFiles st) f of
              Some ts \<Rightarrow> if now - ts > FILE_MAX_AGE_MS then None
                         else Some ts
            | None \<Rightarrow>
                (case map_of (disk st) f of
                   None \<Rightarrow> None
                 | Some m \<Rightarrow> if now - m > FILE_MAX_AGE_MS then None else Some m))"
proof -
  let ?st1 = "cleanup_tracked now (uploadedFiles st) st"
  let ?ns = "map fst (disk ?st1)"
  from assms have dt: "distinct (map fst (uploadedFiles st))" and dd: "distinct (map fst (disk st))"
    by (simp_all add: store_ok_def)
  have d: "distinct ?ns" using dd by (rule cleanup_tracked_distinct)
  have sub: "set ?ns \<subseteq> dom (map_of (disk ?st1))"
    by (simp add: dom_map_of_conv_image_fst)
  have mem: "f \<in> set ?ns \<longleftrightarrow> map_of (disk ?st1) f \<noteq> None"
    by (simp add: map_of_eq_None_iff)
  have ex: "expired_entry now (uploadedFiles st) f \<longleftrightarrow>
              (\<exists>ts. map_of (uploadedFiles st) f = Some ts \<and> now - ts > FILE_MAX_AGE_MS)"
    using dt by (rule expired_entry_iff)
  have t1: "map_of (uploadedFiles ?st1) f =
              (if expired_entry now (uploadedFiles st) f then None else map_of (uploadedFiles st) f)"
    by (rule cleanup_tracked_tracking)
  have d1: "map_of (disk ?st1) f =
              (if expired_entry now (uploadedFiles st) f then None else map_of (disk st) f)"
    by (rule cleanup_tracked_disk)
  note scan = scan_untracked_both[OF d sub, of now f]
  show "map_of (disk (cleanupOldFiles now st)) f =
           (case map_of (uploadedFiles st) f of
              Some ts \<Rightarrow> if now - ts > FILE_MAX_AGE_MS then None else map_of (disk st) f
            | None \<Rightarrow>
                (case map_of (disk st) f of
                   None \<Rightarrow> None
                 | Some m \<Rightarrow> if now - m > FILE_MAX_AGE_MS then None else Some m))"
    using scan[THEN conjunct1] mem
    by (cases "map_of (uploadedFiles st) f"; cases "map_of (disk st) f")
       (auto simp: cleanupOldFiles_def Let_def t1 d1 ex)
  show "map_of (uploadedFiles (cleanupOldFiles now st)) f =
           (case map_of (uploadedFiles st) f of
              Some ts \<Rightarrow> if now - ts > FILE_MAX_AGE_MS then None
                         else Some ts
            | None \<Rightarrow>
                (case map_of (disk st) f of
                   None \<Rightarrow> None
                 | Some m \<Rightarrow> if now - m > FILE_MAX_AGE_MS then None else Some m))"
    using scan[THEN conjunct2] mem
    by (cases "map_of (uploadedFiles st) f"; cases "map_of (disk st) f")
       (auto simp: cleanupOldFiles_def Let_def t1 d1 ex)
qed


lemma upload_file:
  "map_of (disk (upload g written now st)) f = (if f = g then Some written else map_of (disk st) f)"
  "map_of (uploadedFiles (upload g written now st)) f =
     (if f = g then Some now else map_of (uploadedFiles st) f)"
  by (simp_all add: upload_def update_conv')

lemma step_keeps:
  assumes "store_ok st"
    and "map_of (uploadedFiles st) f = Some t0" and "map_of (disk st) f \<noteq> None"
    and "\<not> uploads_file f op"
    and "case sweep_time op of None \<Rightarrow> True | Some t \<Rightarrow> t - t0 \<le> FILE_MAX_AGE_MS"
  shows "map_of (uploadedFiles (media_step op st)) f = Some t0 \<and>
         map_of (disk (media_step op st)) f \<noteq> None"
  using assms by (cases op) (auto simp: cleanupOldFiles_file upload_file)

lemma run_keeps:
  assumes "store_ok st"
    and "map_of (uploadedFiles st) f = Some t0" and "map_of (disk st) f \<noteq> None"
    and "list_all (\<lambda>op. \<not> uploads_file f op \<and>
           (case sweep_time op of None \<Rightarrow> True | Some t \<Rightarrow> t - t0 \<le> FILE_MAX_AGE_MS)) ops"
  shows "map_of (disk (run_media ops st)) f \<noteq> None"
  using assms
proof (induction ops arbitrary: st)
  case Nil
  then show ?case by (simp add: run_media_def)
next
  case (Cons op ops)
  from Cons.prems(4) have h: "\<not> uploads_file f op"
    "case sweep_time op of None \<Rightarrow> True | Some t \<Rightarrow> t - t0 \<le> FILE_MAX_AGE_MS"
    and rest: "list_all (\<lambda>op. \<not> uploads_file f op \<and>
           (case sweep_time op of None \<Rightarrow> True | Some t \<Rightarrow> t - t0 \<le> FILE_MAX_AGE_MS)) ops"
    by simp_all
  from step_keeps[OF Cons.prems(1-3) h]
  have k: "map_of (uploadedFiles (media_step op st)) f = Some t0"
    "map_of (disk (media_step op st)) f \<noteq> None" by simp_all
  from Cons.IH[OF media_step_ok[OF Cons.prems(1)] k rest]
  show ?case by (simp add: run_media_def)
qed

lemma step_gone:
  assumes "store_ok st" and "map_of (disk st) f = None" and "\<not> uploads_file f op"
  shows "map_of (disk (media_step op st)) f = None"
  using assms by (cases op) (auto simp: cleanupOldFiles_file upload_file split: option.splits)

lemma run_gone:
  assumes "store_ok st" and "map_of (disk st) f = None"
    and "list_all (\<lambda>op. \<not> uploads_file f op) ops"
  shows "map_of (disk (run_media ops st)) f = None"
  using assms
proof (induction ops arbitrary: st)
  case Nil
  then show ?case by (simp add: run_media_def)
next
  case (Cons op ops)
  from Cons.prems(3) have h: "\<not> uploads_file f op"
    and rest: "list_all (\<lambda>op. \<not> uploads_file f op) ops" by simp_all
  from Cons.IH[OF media_step_ok[OF Cons.prems(1)] step_gone[OF Cons.prems(1,2) h] rest]
  show ?case by (simp add: run_media_def)
qed

lemma step_tracked_or_gone:
  assumes "store_ok st"
    and "map_of (disk st) f = None \<or>
         (map_of (uploadedFiles st) f = Some t0 \<and> map_of (disk st) f \<noteq> None)"
    and "\<not> uploads_file f op"
  shows "map_of (disk (media_step op st)) f = None \<or>
         (map_of (uploadedFiles (media_step op st)) f = Some t0 \<and>
          map_of (disk (media_step op st)) f \<noteq> None)"
  using assms by (cases op) (auto simp: cleanupOldFiles_file upload_file split: option.splits)

lemma step_expire:
  assumes "store_ok st"
    and "map_of (disk st) f = None \<or>
         (map_of (uploadedFiles st) f = Some t0 \<and> map_of (disk st) f \<noteq> None)"
    and "now - t0 > FILE_MAX_AGE_MS"
  shows "map_of (disk (media_step (Sweep now) st)) f = None"
  using assms by (auto simp: cleanupOldFiles_file split: option.splits)

lemma run_expire:
  assumes "store_ok st"
    and "map_of (disk st) f = None \<or>
         (map_of (uploadedFiles st) f = Some t0 \<and> map_of (disk st) f \<noteq> None)"
    and "list_all (\<lambda>op. \<not> uploads_file f op) ops"
    and "list_ex (\<lambda>op. case sweep_time op of None \<Rightarrow> False
                       | Some t \<Rightarrow> t - t0 > FILE_MAX_AGE_MS) ops"
  shows "map_of (disk (run_media ops st)) f = None"
  using assms
proof (induction ops arbitrary: st)
  case Nil
  then show ?case by simp
next
  case (Cons op ops)
  from Cons.prems(3) have h: "\<not> uploads_file f op"
    and rest: "list_all (\<lambda>op. \<not> uploads_file f op) ops" by simp_all
  have ok': "store_ok (media_step op st)" using Cons.prems(1) by (rule media_step_ok)
  show ?case
  proof (cases "case sweep_time op of None \<Rightarrow> False | Some t \<Rightarrow> t - t0 > FILE_MAX_AGE_MS")
    case True
    then obtain now where op: "op = Sweep now" and late: "now - t0 > FILE_MAX_AGE_MS"
      by (cases op) simp_all
    from step_expire[OF Cons.prems(1,2) late]
    have "map_of (disk (media_step op st)) f = None" by (simp add: op)
    from run_gone[OF ok' this rest] show ?thesis by (simp add: run_media_def)
  next
    case False
    with Cons.prems(4) have ex: "list_ex (\<lambda>op. case sweep_time op of None \<Rightarrow> False
                       | Some t \<Rightarrow> t - t0 > FILE_MAX_AGE_MS) ops"
      by simp
    from Cons.IH[OF ok' step_tracked_or_gone[OF Cons.prems(1,2) h] rest ex]
    show ?thesis by (simp add: run_media_def)
  qed
qed


lemma sweeps_until_no_upload: "list_all (\<lambda>op. \<not> uploads_file f op) (sweeps_until s0 t)"
  by (auto simp: sweeps_until_def list_all_iff simp del: upt_Suc)

lemma sweeps_until_times:
  assumes "Sweep x \<in> set (sweeps_until s0 t)"
  shows "x \<le> t"
proof -
  from assms have le: "s0 \<le> t"
    by (cases "t < s0") (simp_all add: sweeps_until_def)
  from assms le obtain k where k: "k \<le> nat ((t - s0) div 60000)" and x: "x = s0 + int k * 60000"
    by (auto simp: sweeps_until_def CLEANUP_INTERVAL_MS_def simp del: upt_Suc)
  from le have "0 \<le> (t - s0) div 60000" by simp
  with k have "int k \<le> (t - s0) div 60000" by simp
  then have "int k * 60000 \<le> ((t - s0) div 60000) * 60000" by simp
  also have "\<dots> \<le> t - s0" by simp
  finally show ?thesis using x by simp
qed

lemma sweeps_until_early:
  assumes "d \<le> FILE_MAX_AGE_MS"
  shows "list_all (\<lambda>op. \<not> uploads_file f op \<and>
           (case sweep_time op of None \<Rightarrow> True | Some x \<Rightarrow> x - t0 \<le> FILE_MAX_AGE_MS))
           (sweeps_until s0 (t0 + d))"
  unfolding list_all_iff
proof
  fix op
  assume m: "op \<in> set (sweeps_until s0 (t0 + d))"
  then obtain x where op: "op = Sweep x"
    by (cases "t0 + d < s0") (auto simp: sweeps_until_def simp del: upt_Suc)
  from sweeps_until_times[of x s0 "t0 + d"] m op have "x \<le> t0 + d" by simp
  with assms show "\<not> uploads_file f op \<and>
           (case sweep_time op of None \<Rightarrow> True | Some x \<Rightarrow> x - t0 \<le> FILE_MAX_AGE_MS)"
    by (simp add: op)
qed

lemma sweeps_until_late:
  assumes "s0 \<le> t" and "t > t0 + FILE_MAX_AGE_MS + CLEANUP_INTERVAL_MS"
  shows "list_ex (\<lambda>op. case sweep_time op of None \<Rightarrow> False
                       | Some x \<Rightarrow> x - t0 > FILE_MAX_AGE_MS) (sweeps_until s0 t)"
proof -
  let ?k = "nat ((t - s0) div 60000)"
  let ?x = "s0 + int ?k * 60000"
  from assms(1) have q: "0 \<le> (t - s0) div 60000" by simp
  have "t - s0 = ((t - s0) div 60000) * 60000 + (t - s0) mod 60000" by simp
  moreover have "(t - s0) mod 60000 < 60000" by simp
  ultimately have "t - s0 < ((t - s0) div 60000) * 60000 + 60000" by linarith
  with q have "t - 60000 < ?x" by simp
  with assms(2) have late: "?x - t0 > FILE_MAX_AGE_MS"
    by (simp add: CLEANUP_INTERVAL_MS_def)
  have "?k \<in> set [0 ..< Suc ?k]" by simp
  then have "Sweep ?x \<in> (\<lambda>k. Sweep (s0 + int k * 60000)) ` set [0 ..< Suc ?k]"
    by (rule imageI)
  then have "Sweep ?x \<in> set (sweeps_until s0 t)"
    using assms(1) by (simp add: sweeps_until_def CLEANUP_INTERVAL_MS_def del: upt_Suc)
  with late show ?thesis
    unfolding list_ex_iff by (intro bexI[of _ "Sweep ?x"]) simp_all
qed


text \<open>
  Claim C7. One run of the sweep at time \<open>now\<close>: a tracked file whose tracking
  timestamp is more than the maximum age in the past is gone from the directory and from
  tracking afterwards; an untracked file in the directory is deleted when its
  modification time is more than the maximum age in the past, and is otherwise kept and
  tracked under its modification time. Consequently, for a file uploaded at \<open>t0\<close> and not
  uploaded again: while every sweep so far ran at most the maximum age after \<open>t0\<close> the
  file is retrievable, and once a sweep has run later than that it is not. With the
  sweeps running on time every interval, the first within one interval of the upload,
  the file is retrievable \<open>d\<close> after the upload for every \<open>d\<close> below the maximum age and
  not retrievable for every \<open>d\<close> above the maximum age plus the interval.
\<close>
theorem sweep_evicts_after_ttl:
  assumes "store_ok st"
  shows "(map_of (uploadedFiles st) f = Some ts \<and> now - ts > FILE_MAX_AGE_MS \<longrightarrow>
            map_of (uploadedFiles (cleanupOldFiles now st)) f = None \<and>
            \<not> retrievable (cleanupOldFiles now st) f) \<and>
         (map_of (uploadedFiles st) f = None \<and> map_of (disk st) f = Some m \<longrightarrow>
            (if now - m > FILE_MAX_AGE_MS
             then map_of (uploadedFiles (cleanupOldFiles now st)) f = None \<and>
                  \<not> retrievable (cleanupOldFiles now st) f
             else map_of (uploadedFiles (cleanupOldFiles now st)) f = Some m \<and>
                  map_of (disk (cleanupOldFiles now st)) f = Some m)) \<and>
         (list_all (\<lambda>op. \<not> uploads_file f op \<and>
              (case sweep_time op of None \<Rightarrow> True | Some t \<Rightarrow> t - t0 \<le> FILE_MAX_AGE_MS)) ops \<longrightarrow>
            retrievable (run_media ops (upload f written t0 st)) f) \<and>
         (list_all (\<lambda>op. \<not> uploads_file f op) ops \<and>
          list_ex (\<lambda>op. case sweep_time op of None \<Rightarrow> False
                         | Some t \<Rightarrow> t - t0 > FILE_MAX_AGE_MS) ops \<longrightarrow>
            \<not> retrievable (run_media ops (upload f written t0 st)) f) \<and>
         (t0 \<le> s0 \<and> s0 \<le> t0 + CLEANUP_INTERVAL_MS \<and> 0 \<le> d \<and> d < FILE_MAX_AGE_MS \<longrightarrow>
            retrievable (run_media (sweeps_until s0 (t0 + d)) (upload f written t0 st)) f) \<and>
         (t0 \<le> s0 \<and> s0 \<le> t0 + CLEANUP_INTERVAL_MS \<and>
          d > FILE_MAX_AGE_MS + CLEANUP_INTERVAL_MS \<longrightarrow>
            \<not> retrievable (run_media (sweeps_until s0 (t0 + d)) (upload f written t0 st)) f)"
proof -
  let ?st0 = "upload f written t0 st"
  have ok0: "store_ok ?st0" using assms by (rule upload_ok)
  have tr0: "map_of (uploadedFiles ?st0) f = Some t0" by (simp add: upload_file)
  have dk0: "map_of (disk ?st0) f \<noteq> None" by (simp add: upload_file)
  have tg0: "map_of (disk ?st0) f = None \<or>
         (map_of (uploadedFiles ?st0) f = Some t0 \<and> map_of (disk ?st0) f \<noteq> None)"
    using tr0 dk0 by simp
  have one: "map_of (uploadedFiles st) f = Some ts \<Longrightarrow> now - ts > FILE_MAX_AGE_MS \<Longrightarrow>
            map_of (uploadedFiles (cleanupOldFiles now st)) f = None \<and>
            \<not> retrievable (cleanupOldFiles now st) f"
    by (simp add: cleanupOldFiles_file[OF assms] retrievable_def existsSync_def)
  have two: "map_of (uploadedFiles st) f = None \<Longrightarrow> map_of (disk st) f = Some m \<Longrightarrow>
            (if now - m > FILE_MAX_AGE_MS
             then map_of (uploadedFiles (cleanupOldFiles now st)) f = None \<and>
                  \<not> retrievable (cleanupOldFiles now st) f
             else map_of (uploadedFiles (cleanupOldFiles now st)) f = Some m \<and>
                  map_of (disk (cleanupOldFiles now st)) f = Some m)"
    by (simp add: cleanupOldFiles_file[OF assms] retrievable_def existsSync_def)
  have three: "list_all (\<lambda>op. \<not> uploads_file f op \<and>
              (case sweep_time op of None \<Rightarrow> True | Some t \<Rightarrow> t - t0 \<le> FILE_MAX_AGE_MS)) ops \<Longrightarrow>
            retrievable (run_media ops ?st0) f" for ops
    using run_keeps[OF ok0 tr0 dk0] by (simp add: retrievable_def existsSync_def)
  have four: "list_all (\<lambda>op. \<not> uploads_file f op) ops \<Longrightarrow>
          list_ex (\<lambda>op. case sweep_time op of None \<Rightarrow> False
                         | Some t \<Rightarrow> t - t0 > FILE_MAX_AGE_MS) ops \<Longrightarrow>
            \<not> retrievable (run_media ops ?st0) f" for ops
    using run_expire[OF ok0 tg0] by (simp add: retrievable_def existsSync_def)
  have five: "d < FILE_MAX_AGE_MS \<Longrightarrow>
            retrievable (run_media (sweeps_until s0 (t0 + d)) ?st0) f"
    using sweeps_until_early[of d f t0 s0] by (intro three) simp
  have six: "s0 \<le> t0 + CLEANUP_INTERVAL_MS \<Longrightarrow> d > FILE_MAX_AGE_MS + CLEANUP_INTERVAL_MS \<Longrightarrow>
            \<not> retrievable (run_media (sweeps_until s0 (t0 + d)) ?st0) f"
  proof -
    assume a: "s0 \<le> t0 + CLEANUP_INTERVAL_MS" and b: "d > FILE_MAX_AGE_MS + CLEANUP_INTERVAL_MS"
    from a b have "s0 \<le> t0 + d" by (simp add: FILE_MAX_AGE_MS_def)
    moreover from b have "t0 + d > t0 + FILE_MAX_AGE_MS + CLEANUP_INTERVAL_MS" by simp
    ultimately have "list_ex (\<lambda>op. case sweep_time op of None \<Rightarrow> False
                       | Some x \<Rightarrow> x - t0 > FILE_MAX_AGE_MS) (sweeps_until s0 (t0 + d))"
      by (rule sweeps_until_late)
    with sweeps_until_no_upload[of f s0 "t0 + d"] show ?thesis by (rule four)
  qed
  from one two three four five six show ?thesis by blast
qed


lemma sample_store_ok: "store_ok sample_store"
  by (simp add: store_ok_def sample_store_def)

lemma init_ok: "store_ok init"
  by (simp add: store_ok_def init_def)

theorem sweep_evicts_after_ttl_witness:
  "store_ok sample_store \<and>
   map_of (uploadedFiles sample_store) ''old.m4a'' = Some 0 \<and>
   250000 - 0 > FILE_MAX_AGE_MS \<and>
   map_of (uploadedFiles (cleanupOldFiles 250000 sample_store)) ''old.m4a'' = None \<and>
   \<not> retrievable (cleanupOldFiles 250000 sample_store) ''old.m4a'' \<and>
   map_of (uploadedFiles sample_store) ''stray-new.m4a'' = None \<and>
   map_of (disk sample_store) ''stray-new.m4a'' = Some 200000 \<and>
   map_of (uploadedFiles (cleanupOldFiles 250000 sample_store)) ''stray-new.m4a'' = Some 200000 \<and>
   map_of (disk (cleanupOldFiles 250000 sample_store)) ''stray-new.m4a'' = Some 200000 \<and>
   map_of (uploadedFiles sample_store) ''stray-old.m4a'' = None \<and>
   map_of (disk sample_store) ''stray-old.m4a'' = Some 5000 \<and>
   map_of (uploadedFiles (cleanupOldFiles 250000 sample_store)) ''stray-old.m4a'' = None \<and>
   \<not> retrievable (cleanupOldFiles 250000 sample_store) ''stray-old.m4a'' \<and>
   store_ok init \<and>
   retrievable (run_media [Sweep 60000, Upload ''other.m4a'' 100000 100001, Sweep 240000]
                  (upload ''new.m4a'' 0 0 init)) ''new.m4a'' \<and>
   \<not> retrievable (run_media [Sweep 250000] (upload ''new.m4a'' 0 0 init)) ''new.m4a'' \<and>
   retrievable (run_media (sweeps_until 10000 (0 + 239999)) (upload ''new.m4a'' 0 0 init))
     ''new.m4a'' \<and>
   \<not> retrievable (run_media (sweeps_until 10000 (0 + 300001)) (upload ''new.m4a'' 0 0 init))
     ''new.m4a''"
proof -
  note a = sweep_evicts_after_ttl[OF sample_store_ok,
      where f="''old.m4a''" and ts=0 and now=250000]
  note b = sweep_evicts_after_ttl[OF sample_store_ok,
      where f="''stray-new.m4a''" and m=200000 and now=250000]
  note b' = sweep_evicts_after_ttl[OF sample_store_ok,
      where f="''stray-old.m4a''" and m=5000 and now=250000]
  note c = sweep_evicts_after_ttl[OF init_ok,
      where f="''new.m4a''" and written=0 and ?t0.0=0 and ?s0.0=10000 and d=239999
        and ops="[Sweep 60000, Upload ''other.m4a'' 100000 100001, Sweep 240000]"]
  note d = sweep_evicts_after_ttl[OF init_ok,
      where f="''new.m4a''" and written=0 and ?t0.0=0 and ?s0.0=10000 and d=300001
        and ops="[Sweep 250000]"]
  have h: "map_of (uploadedFiles sample_store) ''old.m4a'' = Some 0"
    "map_of (uploadedFiles sample_store) ''stray-new.m4a'' = None"
    "map_of (disk sample_store) ''stray-new.m4a'' = Some 200000"
    "map_of (uploadedFiles sample_store) ''stray-old.m4a'' = None"
    "map_of (disk sample_store) ''stray-old.m4a'' = Some 5000"
    by (simp_all add: sample_store_def)
  from a b b' c d h sample_store_ok init_ok show ?thesis
    by (simp add: FILE_MAX_AGE_MS_def CLEANUP_INTERVAL_MS_def)
qed

section \<open>Every reachable state is well formed\<close>

lemma cleanup_tracked_channels:
  "rooms (cleanup_tracked now es st) = rooms st \<and>
   userChannels (cleanup_tracked now es st) = userChannels st"
proof (induction es arbitrary: st)
  case Nil
  show ?case by simp
next
  case (Cons e es)
  obtain g ts where e: "e = (g, ts)" by (cases e)
  show ?case by (simp add: e Cons.IH unlinkSync_def)
qed

lemma scan_untracked_channels:
  "rooms (scan_untracked now ns st) = rooms st \<and>
   userChannels (scan_untracked now ns st) = userChannels st"
proof (induction ns arbitrary: st)
  case Nil
  show ?case by simp
next
  case (Cons nm rest)
  show ?case by (simp add: Cons.IH unlinkSync_def split: option.splits)
qed

lemma media_step_channels:
  "rooms (media_step op st) = rooms st \<and> userChannels (media_step op st) = userChannels st"
  by (cases op)
     (simp_all add: cleanupOldFiles_def Let_def cleanup_tracked_channels scan_untracked_channels
        upload_def)

lemma well_formed_cong:
  assumes r: "rooms st' = rooms st" and u: "userChannels st' = userChannels st"
  shows "well_formed st' = well_formed st"
  unfolding well_formed_def channels_ok_def userChannels_of_def r u ..

lemma wf_media_step: "well_formed st \<Longrightarrow> well_formed (media_step op st)"
  using media_step_channels[of op st] well_formed_cong[of "media_step op st" st] by simp

lemma store_ok_cong:
  assumes d: "disk st' = disk st" and u: "uploadedFiles st' = uploadedFiles st"
  shows "store_ok st' = store_ok st"
  unfolding store_ok_def d u ..

lemma store_connect: "store_ok (connect st s) = store_ok st"
  by (rule store_ok_cong) (simp_all add: connect_def socket_join_def)

lemma store_joinChannel: "store_ok (fst (joinChannel st s v)) = store_ok st"
  by (rule store_ok_cong) (simp_all add: joinChannel_def Let_def socket_join_def)

lemma store_leaveChannel: "store_ok (fst (leaveChannel st s v)) = store_ok st"
  by (rule store_ok_cong; cases v) (simp_all add: leaveChannel_def Let_def)

lemma store_disconnect: "store_ok (fst (disconnect st s)) = store_ok st"
  by (rule store_ok_cong) (simp_all add: disconnect_def Let_def)

lemma reachable_well_formed: "reachable st \<Longrightarrow> well_formed st \<and> store_ok st"
proof (induction rule: reachable.induct)
  case reachable_init
  show ?case using wf_init by (simp add: store_ok_def init_def)
next
  case (reachable_connect st s)
  then show ?case by (simp add: wf_connect store_connect)
next
  case (reachable_join st s v)
  then show ?case by (simp add: wf_joinChannel store_joinChannel)
next
  case (reachable_leave st s v)
  then show ?case by (simp add: wf_leaveChannel store_leaveChannel)
next
  case (reachable_disconnect st s)
  then show ?case by (simp add: wf_disconnect store_disconnect)
next
  case (reachable_media st op)
  then show ?case by (simp add: wf_media_step media_step_ok)
qed

lemma two_in_channel_session:
  "fst (joinChannel
         (fst (joinChannel (connect (connect (connect init ''A'') ''B'') ''C'')
                 ''A'' (JStr ''freq-446.00'')))
         ''B'' (JStr ''freq-446.00'')) = two_in_channel"
  by code_simp

lemma reachable_two_in_channel: "reachable two_in_channel"
proof -
  have na: "\<not> has_connection init ''A''"
    and nb: "\<not> has_connection (connect init ''A'') ''B''"
    and nc: "\<not> has_connection (connect (connect init ''A'') ''B'') ''C''"
    and ha: "connected (connect (connect (connect init ''A'') ''B'') ''C'') ''A''"
    and hb: "connected (fst (joinChannel (connect (connect (connect init ''A'') ''B'') ''C'')
                 ''A'' (JStr ''freq-446.00''))) ''B''"
    by code_simp+
  note a = reachable_connect[OF reachable_init na]
  note b = reachable_connect[OF a nb]
  note c = reachable_connect[OF b nc]
  note d = reachable_join[OF c ha, of "JStr ''freq-446.00''"]
  from reachable_join[OF d hb, of "JStr ''freq-446.00''"] show ?thesis
    by (simp only: two_in_channel_session)
qed

text \<open>
  The state in which C has left the room named by its own id is reached from the session
  of A, B and C by one \<^verbatim>\<open>leaveChannel\<close> message of C.
\<close>
lemma own_room_left_session:
  "fst (leaveChannel two_in_channel ''C'' (JStr ''C'')) = own_room_left"
  by code_simp

lemma reachable_own_room_left: "reachable own_room_left"
proof -
  have hc: "connected two_in_channel ''C''" by code_simp
  from reachable_leave[OF reachable_two_in_channel hc, of "JStr ''C''"] show ?thesis
    by (simp only: own_room_left_session)
qed

text \<open>
  A room of a reachable state holds connected sockets only, so a broadcast to a room
  reaches each of the members it is addressed to.
\<close>
lemma set_set_add: "set (set_add x xs) = insert x (set xs)"
  by (auto simp: set_add_def)

lemma cleanup_tracked_sockets: "sockets (cleanup_tracked now es st) = sockets st"
proof (induction es arbitrary: st)
  case Nil
  show ?case by simp
next
  case (Cons e es)
  obtain g ts where e: "e = (g, ts)" by (cases e)
  show ?case by (simp add: e Cons.IH unlinkSync_def)
qed

lemma scan_untracked_sockets: "sockets (scan_untracked now ns st) = sockets st"
proof (induction ns arbitrary: st)
  case Nil
  show ?case by simp
next
  case (Cons nm rest)
  show ?case by (simp add: Cons.IH unlinkSync_def split: option.splits)
qed

lemma media_step_sockets: "sockets (media_step op st) = sockets st"
  by (cases op)
     (simp_all add: cleanupOldFiles_def Let_def cleanup_tracked_sockets scan_untracked_sockets
        upload_def)

lemma rooms_joinChannel:
  "room_members (rooms (fst (joinChannel st s v))) c \<in>
     {room_members (rooms st) c, set_add s (room_members (rooms st) c)}"
  by (cases v) (simp_all add: joinChannel_def Let_def socket_join_def room_members_add)

lemma sockets_joinChannel: "sockets (fst (joinChannel st s v)) = sockets st"
  by (simp add: joinChannel_def Let_def socket_join_def)

lemma rooms_leaveChannel:
  "set (room_members (rooms (fst (leaveChannel st s v))) c) \<subseteq> set (room_members (rooms st) c)"
  by (cases v) (auto simp add: leaveChannel_def Let_def room_members_del)

lemma sockets_leaveChannel: "sockets (fst (leaveChannel st s v)) = sockets st"
  by (cases v) (simp_all add: leaveChannel_def Let_def)

lemma reachable_rooms_connected:
  "reachable st \<Longrightarrow> set (room_members (rooms st) c) \<subseteq> set (sockets st)"
proof (induction arbitrary: c rule: reachable.induct)
  case reachable_init
  show ?case by (simp add: init_def room_members_def)
next
  case (reachable_connect st s)
  from reachable_connect.IH[of c] reachable_connect.IH[of s] show ?case
    by (auto simp add: connect_def socket_join_def room_members_add set_set_add)
next
  case (reachable_join st s v)
  from rooms_joinChannel[of st s v c] reachable_join.IH[of c] reachable_join.hyps(2)
  show ?case by (auto simp add: sockets_joinChannel set_set_add connected_def)
next
  case (reachable_leave st s v)
  from rooms_leaveChannel[of st s v c] reachable_leave.IH[of c] show ?case
    by (auto simp add: sockets_leaveChannel)
next
  case (reachable_disconnect st s)
  from reachable_disconnect.IH[of c] show ?case
    by (auto simp add: disconnect_def Let_def room_members_delAll)
next
  case (reachable_media st op)
  from reachable_media.IH[of c] media_step_channels[of op st] show ?case
    by (simp add: media_step_sockets)
qed

end
